theory Spec2Isabelle
  imports Complex_Main
begin

section \<open>Anchor Constrained Plausibility: the scoring driver\<close>

text \<open>
  A shallow embedding of \<^verbatim>\<open>main\<close> of the anchor-constrained plausibility tool
  (\<^verbatim>\<open>src/unnamed/part_000\<close>): candidate loading, the anchor fit, and the three run
  modes (scoring by weight or streamline count, the joint fit, the greedy addition).

  The fitting filter, the fiber bundle class, the peak flipper and the file loader are
  not part of the file; they enter the model as the fields of a record of collaborators.
  \<^verbatim>\<open>double\<close> and \<^verbatim>\<open>float\<close> values are modelled as reals: the driver only
  compares them, adds them up and truncates them, and the comparisons are those of
  ordinary (non-NaN) numbers.
\<close>

subsection \<open>Outcomes\<close>

text \<open>
  \<^verbatim>\<open>main\<close> runs inside one \<^verbatim>\<open>try\<close> block: any exception ends the run with
  \<^verbatim>\<open>EXIT_FAILURE\<close>. \<open>OutOfFuel\<close> is the outcome of a greedy loop that has not
  stopped within the number of rounds it was given.
\<close>

datatype 'a result = Ok 'a | Exception | OutOfFuel

fun rbind :: "'a result \<Rightarrow> ('a \<Rightarrow> 'b result) \<Rightarrow> 'b result" where
  "rbind (Ok x) f = f x"
| "rbind Exception f = Exception"
| "rbind OutOfFuel f = OutOfFuel"

text \<open>\<^verbatim>\<open>std::vector::at\<close>: a range-checked read, throwing \<^verbatim>\<open>std::out_of_range\<close>.
  The unchecked \<^verbatim>\<open>rms_diff[c]\<close> of \<^verbatim>\<open>vnl_vector\<close> is modelled in the same way (a read
  outside the vector has no defined result in the source).\<close>

definition vec_at :: "'a list \<Rightarrow> nat \<Rightarrow> 'a result" where
  "vec_at xs k = (if k < length xs then Ok (xs ! k) else Exception)"

text \<open>The cast \<^verbatim>\<open>(int)x\<close> of a \<^verbatim>\<open>double\<close> to the 32-bit \<^verbatim>\<open>int\<close> truncates towards
  zero. When the truncated value does not fit, the language leaves the result undefined:
  that is \<open>None\<close>.\<close>

definition int_cast :: "real \<Rightarrow> int option" where
  "int_cast x =
     (if - 2147483648 \<le> (if x < 0 then \<lceil>x\<rceil> else \<lfloor>x\<rfloor>) \<and>
         (if x < 0 then \<lceil>x\<rceil> else \<lfloor>x\<rfloor>) \<le> 2147483647
      then Some (if x < 0 then \<lceil>x\<rceil> else \<lfloor>x\<rfloor>)
      else None)"

subsection \<open>Data\<close>

text \<open>A \<^verbatim>\<open>mitk::FiberBundle::Pointer\<close> is a smart pointer; the greedy loop compares
  pointers, and the fitting filter writes weights into the bundles it is given, so
  bundles live in a store addressed by pointers.\<close>

type_synonym ptr = nat

record fiber =
  points :: "(real \<times> real \<times> real) list"
  weight :: real

type_synonym FiberBundle = "fiber list"

type_synonym heap = "ptr \<Rightarrow> FiberBundle"

text \<open>Modelled from the spec: the accessors of \<^verbatim>\<open>mitk::FiberBundle\<close>, whose class is
  not among the sources. A bundle is an ordered collection of fibers, each with a scalar
  weight.\<close>

definition GetNumFibers :: "FiberBundle \<Rightarrow> int" where
  "GetNumFibers fib = int (length fib)"

definition GetFiberWeight :: "FiberBundle \<Rightarrow> nat \<Rightarrow> real" where
  "GetFiberWeight fib k = weight (fib ! k)"

text \<open>The images are opaque to the driver; they are kept as their voxel buffers.\<close>

type_synonym PeakImgType = "real list"

type_synonym ItkUcharImageType = "nat list"

datatype REGU = MSM | VARIANCE | LASSO | VOXEL_VARIANCE | GROUP_LASSO | GROUP_VARIANCE | NONE

text \<open>What the driver sets on a fresh \<^verbatim>\<open>itk::FitFibersToImageFilter\<close> before
  \<^verbatim>\<open>Update\<close>. A setter that is not called leaves \<open>None\<close>: the filter's own default
  applies.\<close>

record fit_input =
  Tractograms :: "ptr list"
  PeakImage :: PeakImgType
  MaskImage :: "ItkUcharImageType option"
  Lambda :: real
  FilterOutliers :: bool
  Verbose :: bool
  FitIndividualFibers :: "bool option"
  Regularization :: "REGU option"

text \<open>What the driver reads from the filter after \<^verbatim>\<open>Update\<close>.\<close>

record fit_output =
  GetRMSE :: real
  GetRmsDiffPerBundle :: "real list"
  GetNumCoveredDirections :: nat
  GetTractograms :: "ptr list"
  GetUnderexplainedImage :: PeakImgType

text \<open>The collaborators of the driver. \<open>Load\<close> is \<^verbatim>\<open>mitk::IOUtil::Load<mitk::FiberBundle>\<close>
  (\<open>None\<close> is the null pointer); \<open>Update\<close> runs the fitting filter on the bundles in the
  store and may write to them. \<open>RoundToDouble\<close> is the arithmetic of the machine: the
  \<^verbatim>\<open>double\<close> that stands for the exact value of a sum or a product of two doubles.\<close>

record ext =
  Load :: "string \<Rightarrow> ptr option"
  Update :: "fit_input \<Rightarrow> heap \<Rightarrow> fit_output \<times> heap"
  FlipPeaks :: "bool \<Rightarrow> bool \<Rightarrow> bool \<Rightarrow> PeakImgType \<Rightarrow> PeakImgType"
  GetOverlap :: "FiberBundle \<Rightarrow> ItkUcharImageType \<Rightarrow> real"
  GetDirectionalOverlap :: "FiberBundle \<Rightarrow> ItkUcharImageType \<Rightarrow> PeakImgType \<Rightarrow> real \<times> real"
  GetNumCoveredVoxels :: "ItkUcharImageType option \<Rightarrow> FiberBundle \<Rightarrow> nat"
  FilterByWeights :: "FiberBundle \<Rightarrow> real \<Rightarrow> FiberBundle"
  GetFilenameWithoutExtension :: "string \<Rightarrow> string"
  RoundToDouble :: "real \<Rightarrow> real"

text \<open>The parsed command line together with the data loaded from it. \<open>anchors_file\<close> is
  \<open>None\<close> when the argument \<^verbatim>\<open>a\<close> is absent. \<^verbatim>\<open>reference_masks\<close> and
  \<^verbatim>\<open>anchor_mask_files\<close> are filled by the same \<^verbatim>\<open>push_back\<close> pairs and are kept as
  one list of pairs.\<close>

record args =
  anchors_file :: "string option"
  inputImage :: PeakImgType
  candidate_files :: "string list"
  mask_image :: "ItkUcharImageType option"
  reference_masks :: "(ItkUcharImageType \<times> string) list"
  reference_peaks :: "PeakImgType list"
  greedy_add :: bool
  lambda :: real
  filter_outliers :: bool
  filter_zero_weights :: bool
  regu :: string
  use_weights :: bool
  use_num_streamlines :: bool
  flipx :: bool
  flipy :: bool
  flipz :: bool

text \<open>The lines of \<^verbatim>\<open>log.txt\<close>, one constructor per output statement, with the values
  that are written (the file prints them with five significant digits).\<close>

datatype log_line =
    LogVersion
  | LogAnchor real string real
  | LogRmsDiff real string nat int real
  | LogRmse real string real
  | LogBestOverlap real real string
  | LogBestDirOverlap real real string
  | LogBestOverlapGreedy real string
  | LogNoOverlap

text \<open>The files written: a bundle under \<^verbatim>\<open><number>_<name>.fib\<close>, the joined candidates,
  and the residual peak images. The number of a bundle file is \<open>None\<close> where the cast
  that produces it is undefined.\<close>

datatype saved_file =
    SavedFib "int option" string FiberBundle
  | SavedAllCandidates FiberBundle
  | SavedResidual string PeakImgType
  | SavedRound int string PeakImgType

text \<open>The variables of \<^verbatim>\<open>main\<close> that change during the run, the store, and what the
  run has written and fitted so far.\<close>

record run =
  heap :: heap
  peak_image :: PeakImgType
  rmse :: real
  iteration :: int
  name :: string
  input_candidates :: "ptr list"
  candidate_tract_files :: "string list"
  logfile :: "log_line list"
  saved :: "saved_file list"
  fit_calls :: "fit_input list"

subsection \<open>Loading the candidates\<close>

fun load_candidates :: "ext \<Rightarrow> heap \<Rightarrow> string list \<Rightarrow> ptr list" where
  "load_candidates E h [] = []"
| "load_candidates E h (f # fs) =
     (case Load E f of
        None \<Rightarrow> load_candidates E h fs
      | Some fib \<Rightarrow>
          if GetNumFibers (h fib) \<le> 0 then load_candidates E h fs
          else fib # load_candidates E h fs)"

subsection \<open>Overlap with the references\<close>

text \<open>\<^verbatim>\<open>struct Overlap { float v1; float v2; int i; }\<close>; the field \<^verbatim>\<open>i\<close> is \<open>idx\<close>.\<close>

datatype Overlap = Overlap (v1: real) (v2: real) (idx: int)

definition no_overlap :: Overlap where
  "no_overlap = Overlap 0 0 (- 1)"

text \<open>The loop over aligned reference masks and peaks; the list holds, for each
  reference, the pair returned by \<^verbatim>\<open>GetDirectionalOverlap\<close>. The state is
  \<open>(classic, directional)\<close>.\<close>

fun best_aligned :: "nat \<Rightarrow> (real \<times> real) list \<Rightarrow> Overlap \<times> Overlap \<Rightarrow> Overlap \<times> Overlap" where
  "best_aligned k [] cd = cd"
| "best_aligned k ((directional_overlap, overlap) # rest) (classic, directional) =
     best_aligned (Suc k) rest
       (if overlap > v1 classic then Overlap overlap directional_overlap (int k) else classic,
        if directional_overlap > v1 directional then Overlap directional_overlap overlap (int k)
        else directional)"

text \<open>The loop over the masks alone: only \<^verbatim>\<open>classic.v1\<close> and \<^verbatim>\<open>classic.i\<close> are
  written.\<close>

fun best_masks :: "nat \<Rightarrow> real list \<Rightarrow> Overlap \<Rightarrow> Overlap" where
  "best_masks k [] classic = classic"
| "best_masks k (overlap # rest) classic =
     best_masks (Suc k) rest
       (if overlap > v1 classic then Overlap overlap (v2 classic) (int k) else classic)"

definition best_overlaps :: "ext \<Rightarrow> args \<Rightarrow> FiberBundle \<Rightarrow> Overlap \<times> Overlap" where
  "best_overlaps E A fib =
     (if length (reference_masks A) = length (reference_peaks A)
      then best_aligned 0
             (map2 (\<lambda>ref_mask ref_peak. GetDirectionalOverlap E fib (fst ref_mask) ref_peak)
                (reference_masks A) (reference_peaks A))
             (no_overlap, no_overlap)
      else (best_masks 0 (map (\<lambda>ref_mask. GetOverlap E fib (fst ref_mask)) (reference_masks A))
              no_overlap,
            no_overlap))"

text \<open>The overlap lines of the weight and joint modes.\<close>

definition overlap_log :: "ext \<Rightarrow> args \<Rightarrow> Overlap \<times> Overlap \<Rightarrow> log_line list result" where
  "overlap_log E A cd =
     (let classic = fst cd; directional = snd cd in
      if idx classic \<ge> 0 then
        rbind (vec_at (reference_masks A) (nat (idx classic))) (\<lambda>cm.
          if idx directional \<ge> 0 then
            rbind (vec_at (reference_masks A) (nat (idx directional))) (\<lambda>dm.
              Ok [LogBestOverlap (v1 classic) (v2 classic) (GetFilenameWithoutExtension E (snd cm)),
                  LogBestDirOverlap (v1 directional) (v2 directional)
                    (GetFilenameWithoutExtension E (snd dm))])
          else Ok [LogBestOverlap (v1 classic) (v2 classic)
                     (GetFilenameWithoutExtension E (snd cm))])
      else Ok [LogNoOverlap])"

subsection \<open>The anchor fit\<close>

definition anchor_fit_input :: "args \<Rightarrow> run \<Rightarrow> ptr \<Rightarrow> fit_input" where
  "anchor_fit_input A s anchor_tractogram =
     \<lparr>Tractograms = [anchor_tractogram], PeakImage = peak_image s, MaskImage = mask_image A,
      Lambda = lambda A, FilterOutliers = filter_outliers A, Verbose = True,
      FitIndividualFibers = None, Regularization = Some NONE\<rparr>"

text \<open>Lines 311 to 348. The log line is written while \<^verbatim>\<open>name\<close> still holds its
  previous value; the colours set on the anchor bundle are not modelled.\<close>

definition anchor_fit :: "ext \<Rightarrow> args \<Rightarrow> run \<Rightarrow> run result" where
  "anchor_fit E A s =
     (case anchors_file A of
        None \<Rightarrow> Ok s
      | Some file \<Rightarrow>
          (case Load E file of
             None \<Rightarrow> Ok s
           | Some anchor_tractogram \<Rightarrow>
               if GetNumFibers (heap s anchor_tractogram) = 0 then Ok s
               else
                 (case Update E (anchor_fit_input A s anchor_tractogram) (heap s) of
                    (fitter, h) \<Rightarrow>
                      rbind (vec_at (GetRmsDiffPerBundle fitter) 0) (\<lambda>rms_diff0.
                      rbind (vec_at (GetTractograms fitter) 0) (\<lambda>anchor_tracts.
                        Ok (s\<lparr>heap := h,
                              rmse := GetRMSE fitter,
                              name := GetFilenameWithoutExtension E file,
                              peak_image := GetUnderexplainedImage fitter,
                              logfile := logfile s @ [LogAnchor rms_diff0 (name s) (GetRMSE fitter)],
                              saved := saved s @
                                [SavedFib (int_cast (RoundToDouble E (100000 * rms_diff0)))
                                   (GetFilenameWithoutExtension E file) (h anchor_tracts),
                                 SavedResidual (GetFilenameWithoutExtension E file)
                                   (GetUnderexplainedImage fitter)],
                              fit_calls := fit_calls s @
                                [anchor_fit_input A s anchor_tractogram]\<rparr>))))))"

subsection \<open>Scoring a bundle\<close>

text \<open>Lines 362 to 370: the score of the weight mode and the factor used for the file
  name.\<close>

definition candidate_score :: "args \<Rightarrow> FiberBundle \<Rightarrow> real" where
  "candidate_score A fib =
     (if use_weights A then GetFiberWeight fib 0
      else if use_num_streamlines A then real_of_int (GetNumFibers fib)
      else 0)"

definition score_mod :: "args \<Rightarrow> int" where
  "score_mod A = (if use_weights A then 100000 else 1)"

text \<open>Lines 430 to 432: the weights are added up one by one, in \<^verbatim>\<open>double\<close>.\<close>

definition weight_sum :: "ext \<Rightarrow> FiberBundle \<Rightarrow> real" where
  "weight_sum E fib =
     foldl (\<lambda>s k. RoundToDouble E (s + GetFiberWeight fib k)) 0 [0..<nat (GetNumFibers fib)]"

text \<open>The part that the weight mode (lines 373 to 444) and the joint mode (lines 482 to
  555) have in common: the file saved for the bundle and its log lines.\<close>

definition score_bundle ::
  "ext \<Rightarrow> args \<Rightarrow> string list \<Rightarrow> nat \<Rightarrow> FiberBundle \<Rightarrow> real \<Rightarrow> int option \<Rightarrow>
     (saved_file \<times> log_line list) result" where
  "score_bundle E A files c fib score prefix =
     rbind (vec_at files c) (\<lambda>f.
       rbind (overlap_log E A (best_overlaps E A fib)) (\<lambda>overlap_lines.
         Ok (SavedFib prefix (GetFilenameWithoutExtension E f) fib,
             LogRmsDiff score (GetFilenameWithoutExtension E f)
               (GetNumCoveredVoxels E (mask_image A) fib) (GetNumFibers fib) (weight_sum E fib)
             # overlap_lines)))"

definition weights_body ::
  "ext \<Rightarrow> args \<Rightarrow> heap \<Rightarrow> string list \<Rightarrow> nat \<Rightarrow> ptr \<Rightarrow> (saved_file \<times> log_line list) result" where
  "weights_body E A h files c fib =
     score_bundle E A files c (h fib) (candidate_score A (h fib))
       (int_cast (RoundToDouble E (real_of_int (score_mod A) * candidate_score A (h fib))))"

definition joint_body ::
  "ext \<Rightarrow> args \<Rightarrow> heap \<Rightarrow> string list \<Rightarrow> real list \<Rightarrow> nat \<Rightarrow> ptr \<Rightarrow> (saved_file \<times> log_line list) result" where
  "joint_body E A h files rms_diff c fib =
     rbind (vec_at rms_diff c) (\<lambda>rms_diff_c.
       score_bundle E A files c
         (if filter_zero_weights A then FilterByWeights E (h fib) 0 else h fib)
         rms_diff_c (int_cast (RoundToDouble E (100000 * rms_diff_c))))"

text \<open>\<^verbatim>\<open>for (auto fib : input_candidates) { ...; ++c; }\<close>\<close>

fun score_loop ::
  "(nat \<Rightarrow> ptr \<Rightarrow> (saved_file \<times> log_line list) result) \<Rightarrow> run \<Rightarrow> nat \<Rightarrow> ptr list \<Rightarrow> run result" where
  "score_loop body s c [] = Ok s"
| "score_loop body s c (fib # rest) =
     rbind (body c fib) (\<lambda>out.
       score_loop body
         (s\<lparr>saved := saved s @ [fst out], logfile := logfile s @ snd out\<rparr>) (Suc c) rest)"

subsection \<open>The weight mode and the joint mode\<close>

definition weights_mode :: "ext \<Rightarrow> args \<Rightarrow> run \<Rightarrow> run result" where
  "weights_mode E A s =
     score_loop (weights_body E A (heap s) (candidate_tract_files s)) s 0 (input_candidates s)"

text \<open>Lines 461 to 474.\<close>

definition regu_dispatch :: "string \<Rightarrow> REGU option" where
  "regu_dispatch r =
     (if r = ''MSM'' then Some MSM
      else if r = ''Variance'' then Some VARIANCE
      else if r = ''Lasso'' then Some LASSO
      else if r = ''VoxelVariance'' then Some VOXEL_VARIANCE
      else if r = ''GroupLasso'' then Some GROUP_LASSO
      else if r = ''GroupVariance'' then Some GROUP_VARIANCE
      else if r = ''NONE'' then Some NONE
      else None)"

definition joint_fit_input :: "args \<Rightarrow> run \<Rightarrow> fit_input" where
  "joint_fit_input A s =
     \<lparr>Tractograms = input_candidates s, PeakImage = peak_image s, MaskImage = mask_image A,
      Lambda = lambda A, FilterOutliers = filter_outliers A, Verbose = True,
      FitIndividualFibers = Some True, Regularization = regu_dispatch (regu A)\<rparr>"

text \<open>Lines 451 to 568. \<^verbatim>\<open>AddBundles\<close> joins the fibers of the candidates.\<close>

definition joint_mode :: "ext \<Rightarrow> args \<Rightarrow> run \<Rightarrow> run result" where
  "joint_mode E A s =
     (case Update E (joint_fit_input A s) (heap s) of
        (fitter, h) \<Rightarrow>
          rbind (score_loop
                   (joint_body E A h (candidate_tract_files s) (GetRmsDiffPerBundle fitter))
                   (s\<lparr>heap := h, fit_calls := fit_calls s @ [joint_fit_input A s]\<rparr>)
                   0 (input_candidates s)) (\<lambda>s'.
            Ok (s'\<lparr>peak_image := GetUnderexplainedImage fitter,
                   saved := saved s' @
                     [SavedAllCandidates (concat (map h (input_candidates s))),
                      SavedResidual ''AllCandidates'' (GetUnderexplainedImage fitter)]\<rparr>)))"

subsection \<open>The greedy mode\<close>

definition greedy_fit_input :: "args \<Rightarrow> run \<Rightarrow> ptr \<Rightarrow> fit_input" where
  "greedy_fit_input A s cand =
     \<lparr>Tractograms = [cand], PeakImage = peak_image s, MaskImage = mask_image A,
      Lambda = lambda A, FilterOutliers = filter_outliers A, Verbose = False,
      FitIndividualFibers = None, Regularization = None\<rparr>"

text \<open>The variables of one round (lines 578 to 581). \<^verbatim>\<open>best_candidate\<close> and
  \<^verbatim>\<open>best_candidate_peak_image\<close> are assigned together and are kept as one optional
  pair; \<open>None\<close> is the null pointer.\<close>

record best =
  next_rmse :: real
  num_peaks :: real
  best_candidate :: "(ptr \<times> PeakImgType) option"

text \<open>Lines 583 to 610: one fit per remaining candidate.\<close>

fun greedy_fits :: "ext \<Rightarrow> args \<Rightarrow> ptr list \<Rightarrow> run \<times> best \<Rightarrow> (run \<times> best) result" where
  "greedy_fits E A [] sb = Ok sb"
| "greedy_fits E A (cand # rest) (s, b) =
     (case Update E (greedy_fit_input A s cand) (heap s) of
        (fitter, h) \<Rightarrow>
          if GetRMSE fitter < next_rmse b then
            rbind (vec_at (GetTractograms fitter) 0) (\<lambda>t.
              greedy_fits E A rest
                (s\<lparr>heap := h, fit_calls := fit_calls s @ [greedy_fit_input A s cand]\<rparr>,
                 \<lparr>next_rmse = GetRMSE fitter,
                  num_peaks = real (GetNumCoveredDirections fitter),
                  best_candidate = Some (t, GetUnderexplainedImage fitter)\<rparr>))
          else
            greedy_fits E A rest
              (s\<lparr>heap := h, fit_calls := fit_calls s @ [greedy_fit_input A s cand]\<rparr>, b))"

text \<open>Lines 618 to 633: the candidates other than the winner are kept, with their
  files; \<^verbatim>\<open>name\<close> becomes the file name of the winner. The result is
  \<open>(remaining_candidates, remaining_candidate_files, name)\<close>.\<close>

fun remove_best ::
  "ext \<Rightarrow> ptr \<Rightarrow> nat \<Rightarrow> ptr list \<Rightarrow> string list \<Rightarrow> string \<Rightarrow> (ptr list \<times> string list \<times> string) result" where
  "remove_best E bc k [] files nm = Ok ([], [], nm)"
| "remove_best E bc k (fib # rest) files nm =
     rbind (vec_at files k) (\<lambda>f.
       if fib \<noteq> bc then
         rbind (remove_best E bc (Suc k) rest files nm) (\<lambda>r.
           Ok (fib # fst r, f # fst (snd r), snd (snd r)))
       else remove_best E bc (Suc k) rest files (GetFilenameWithoutExtension E f))"

text \<open>Lines 648 to 667: the overlap line of a round.\<close>

definition greedy_overlap_log :: "ext \<Rightarrow> args \<Rightarrow> FiberBundle \<Rightarrow> log_line result" where
  "greedy_overlap_log E A fib =
     (let b = best_masks 0 (map (\<lambda>ref_mask. GetOverlap E fib (fst ref_mask)) (reference_masks A))
                no_overlap in
      if idx b \<ge> 0 then
        rbind (vec_at (reference_masks A) (nat (idx b))) (\<lambda>m.
          Ok (LogBestOverlapGreedy (v1 b) (GetFilenameWithoutExtension E (snd m))))
      else Ok LogNoOverlap)"

text \<open>One pass through the body of the \<^verbatim>\<open>while\<close> loop (lines 578 to 667). The flag
  is \<open>False\<close> when the body leaves the loop at \<^verbatim>\<open>break\<close>.\<close>

definition greedy_round :: "ext \<Rightarrow> args \<Rightarrow> run \<Rightarrow> (bool \<times> run) result" where
  "greedy_round E A s =
     rbind (greedy_fits E A (input_candidates s)
              (s, \<lparr>next_rmse = rmse s, num_peaks = 0, best_candidate = None\<rparr>)) (\<lambda>sb.
       case best_candidate (snd sb) of
         None \<Rightarrow> Ok (False, fst sb)
       | Some (bc, bc_peak_image) \<Rightarrow>
           rbind (remove_best E bc 0 (input_candidates (fst sb))
                    (candidate_tract_files (fst sb)) (name (fst sb))) (\<lambda>r.
             rbind (greedy_overlap_log E A
                      (if filter_zero_weights A then FilterByWeights E (heap (fst sb) bc) 0
                       else heap (fst sb) bc)) (\<lambda>overlap_line.
               Ok (True,
                   (fst sb)\<lparr>peak_image := bc_peak_image,
                            input_candidates := fst r,
                            candidate_tract_files := fst (snd r),
                            name := snd (snd r),
                            iteration := iteration (fst sb) + 1,
                            saved := saved (fst sb) @
                              [SavedFib (Some (iteration (fst sb) + 1)) (snd (snd r))
                                 (if filter_zero_weights A
                                  then FilterByWeights E (heap (fst sb) bc) 0
                                  else heap (fst sb) bc),
                               SavedRound (iteration (fst sb) + 1) (snd (snd r)) bc_peak_image],
                            logfile := logfile (fst sb) @
                              [LogRmse (rmse (fst sb)) (snd (snd r)) (num_peaks (snd sb)),
                               overlap_line]\<rparr>))))"

text \<open>\<^verbatim>\<open>while (!input_candidates.empty())\<close>, with one unit of fuel per pass through the
  body.\<close>

fun greedy_loop :: "nat \<Rightarrow> ext \<Rightarrow> args \<Rightarrow> run \<Rightarrow> run result" where
  "greedy_loop 0 E A s = (if input_candidates s = [] then Ok s else OutOfFuel)"
| "greedy_loop (Suc n) E A s =
     (if input_candidates s = [] then Ok s
      else rbind (greedy_round E A s) (\<lambda>r.
             if fst r then greedy_loop n E A (snd r) else Ok (snd r)))"

subsection \<open>The run\<close>

definition initial_run :: "ext \<Rightarrow> args \<Rightarrow> heap \<Rightarrow> run" where
  "initial_run E A h0 =
     \<lparr>heap = h0,
      peak_image =
        (if flipx A \<or> flipy A \<or> flipz A
         then FlipPeaks E (flipx A) (flipy A) (flipz A) (inputImage A)
         else inputImage A),
      rmse = 0,
      iteration = 0,
      name = ''NOANCHOR'',
      input_candidates = load_candidates E h0 (candidate_files A),
      candidate_tract_files = candidate_files A,
      logfile = [LogVersion],
      saved = [],
      fit_calls = []\<rparr>"

text \<open>Lines 356, 449 and 570: the choice of the mode.\<close>

definition run_mode :: "nat \<Rightarrow> ext \<Rightarrow> args \<Rightarrow> run \<Rightarrow> run result" where
  "run_mode fuel E A s =
     (if use_weights A \<or> use_num_streamlines A then weights_mode E A s
      else if \<not> greedy_add A then joint_mode E A s
      else greedy_loop fuel E A s)"

definition main :: "nat \<Rightarrow> ext \<Rightarrow> args \<Rightarrow> heap \<Rightarrow> run result" where
  "main fuel E A h0 = rbind (anchor_fit E A (initial_run E A h0)) (run_mode fuel E A)"

subsection \<open>A small concrete run\<close>

text \<open>Collaborators and arguments on which the definitions can be evaluated: three
  candidate files, of which \<^verbatim>\<open>e.fib\<close> holds an empty bundle, an anchor, and three aligned
  reference masks and peak images. The fitter of this run returns the bundles it was
  given, leaves the store as it is, and reports an error that depends on the bundle
  alone. The weights, the errors and the factor 100000 of this run have sums and products
  that are doubles themselves, so that rounding leaves them as they are.\<close>

definition demo_heap :: heap where
  "demo_heap p =
     (if p = 1 then [\<lparr>points = [], weight = 5 / 2\<rparr>]
      else if p = 2 then [\<lparr>points = [], weight = 1\<rparr>, \<lparr>points = [], weight = 0\<rparr>]
      else if p = 9 then [\<lparr>points = [], weight = 1\<rparr>]
      else [])"

definition demo_Update :: "fit_input \<Rightarrow> heap \<Rightarrow> fit_output \<times> heap" where
  "demo_Update fi h =
     (\<lparr>GetRMSE =
         (if Tractograms fi = [9] then 10
          else if Tractograms fi = [1] then 4
          else if Tractograms fi = [2] then 6
          else 3),
       GetRmsDiffPerBundle = map (\<lambda>p. real p / 4) (Tractograms fi),
       GetNumCoveredDirections = length (PeakImage fi),
       GetTractograms = Tractograms fi,
       GetUnderexplainedImage = map (\<lambda>x. x / 2) (PeakImage fi)\<rparr>, h)"

definition demo_ext :: ext where
  "demo_ext =
     \<lparr>Load = (\<lambda>f. if f = ''a.fib'' then Some 1
                   else if f = ''b.fib'' then Some 2
                   else if f = ''e.fib'' then Some 3
                   else if f = ''anchor.fib'' then Some 9
                   else None),
      Update = demo_Update,
      FlipPeaks = (\<lambda>fx fy fz img. map uminus img),
      GetOverlap = (\<lambda>fib m. if m = [2] then 4 / 5 else if m = [3] then 3 / 10 else 0),
      GetDirectionalOverlap =
        (\<lambda>fib m p. if m = [2] then (1 / 2, 4 / 5) else if m = [3] then (9 / 10, 3 / 10) else (0, 0)),
      GetNumCoveredVoxels = (\<lambda>m fib. 3 * length fib),
      FilterByWeights = (\<lambda>fib thr. filter (\<lambda>f. weight f > thr) fib),
      GetFilenameWithoutExtension = takeWhile (\<lambda>c. c \<noteq> CHR ''.''),
      RoundToDouble = (\<lambda>x. x)\<rparr>"

definition demo_args :: args where
  "demo_args =
     \<lparr>anchors_file = Some ''anchor.fib'',
      inputImage = [8, 4],
      candidate_files = [''a.fib'', ''b.fib'', ''e.fib''],
      mask_image = None,
      reference_masks = [([1], ''m0.nrrd''), ([2], ''m1.nrrd''), ([3], ''m2.nrrd'')],
      reference_peaks = [[1], [2], [3]],
      greedy_add = True,
      lambda = 1 / 10,
      filter_outliers = False,
      filter_zero_weights = False,
      regu = ''NONE'',
      use_weights = False,
      use_num_streamlines = False,
      flipx = False,
      flipy = False,
      flipz = False\<rparr>"

subsection \<open>Reading a run\<close>

text \<open>The log of a finished run.\<close>

definition log_of :: "run result \<Rightarrow> log_line list result" where
  "log_of r = rbind r (\<lambda>s. Ok (logfile s))"

text \<open>The fits of a finished run, in the order in which they were made.\<close>

definition fits_of :: "run result \<Rightarrow> fit_input list result" where
  "fits_of r = rbind r (\<lambda>s. Ok (fit_calls s))"

subsection \<open>Stating the overlap scores\<close>

text \<open>One running maximum of the overlap loop: the best first component so far, its
  companion value and its index. It is replaced only by a strictly larger value.\<close>

fun track :: "nat \<Rightarrow> (real \<times> real) list \<Rightarrow> Overlap \<Rightarrow> Overlap" where
  "track k [] b = b"
| "track k ((x, y) # rest) b = track (Suc k) rest (if x > v1 b then Overlap x y (int k) else b)"

text \<open>The pair \<open>(directional_overlap, overlap)\<close> of a bundle against reference \<open>k\<close>.\<close>

definition overlap_at :: "ext \<Rightarrow> args \<Rightarrow> FiberBundle \<Rightarrow> nat \<Rightarrow> real \<times> real" where
  "overlap_at E A fib k =
     GetDirectionalOverlap E fib (fst (reference_masks A ! k)) (reference_peaks A ! k)"

subsection \<open>Stating the greedy mode\<close>

text \<open>The values written after \<^verbatim>\<open>RMSE:\<close> in a log, in the order of the lines.\<close>

definition recorded_rmse :: "log_line list \<Rightarrow> real list" where
  "recorded_rmse ls = concat (map (\<lambda>l. case l of LogRmse r n p \<Rightarrow> [r] | _ \<Rightarrow> []) ls)"


text \<open>The error, the round counter, the pool and the peak image of a finished run.\<close>

definition summary_of :: "run result \<Rightarrow> (real \<times> int \<times> ptr list \<times> PeakImgType) result" where
  "summary_of r = rbind r (\<lambda>s. Ok (rmse s, iteration s, input_candidates s, peak_image s))"


text \<open>The anchor step followed by one pass through the body of the greedy loop.\<close>

definition first_round :: "ext \<Rightarrow> args \<Rightarrow> heap \<Rightarrow> run result" where
  "first_round E A h0 =
     rbind (anchor_fit E A (initial_run E A h0)) (\<lambda>s.
       rbind (greedy_round E A s) (\<lambda>r. Ok (snd r)))"

subsection \<open>Kinds of log lines\<close>




subsection \<open>Reading what a run has written\<close>

text \<open>The files, the log and the fits of a finished run.\<close>

definition outputs_of :: "run result \<Rightarrow> (saved_file list \<times> log_line list \<times> fit_input list) result" where
  "outputs_of r = rbind r (\<lambda>s. Ok (saved s, logfile s, fit_calls s))"


subsection \<open>Stating the best overlap\<close>

text \<open>\<open>is_best g other n r\<close>: the record \<open>r\<close> holds the largest of the values
  \<open>g 0, \<dots>, g (n - 1)\<close>, the value of \<open>other\<close> at the same index, and the first index
  at which the largest value is reached; when no value is positive it is the
  record \<open>(0, 0, -1)\<close>.\<close>

definition is_best :: "(nat \<Rightarrow> real) \<Rightarrow> (nat \<Rightarrow> real) \<Rightarrow> nat \<Rightarrow> Overlap \<Rightarrow> bool" where
  "is_best g other n r =
     (if \<exists>j<n. 0 < g j
      then \<exists>j<n. r = Overlap (g j) (other j) (int j) \<and>
             (\<forall>i<n. g i \<le> g j) \<and> (\<forall>i<j. g i < g j)
      else r = no_overlap)"

text \<open>The volumetric and the directional overlap of a bundle with reference \<open>j\<close>. With
  as many reference peak images as reference masks both are the results of
  \<^verbatim>\<open>GetDirectionalOverlap\<close> on mask and peak image \<open>j\<close>; otherwise only the volumetric
  overlap with mask \<open>j\<close> is computed, and the directional value is the 0 of the
  initial record.\<close>

definition volumetric_at :: "ext \<Rightarrow> args \<Rightarrow> FiberBundle \<Rightarrow> nat \<Rightarrow> real" where
  "volumetric_at E A fib j =
     (if length (reference_masks A) = length (reference_peaks A)
      then snd (GetDirectionalOverlap E fib (fst (reference_masks A ! j)) (reference_peaks A ! j))
      else GetOverlap E fib (fst (reference_masks A ! j)))"

definition directional_at :: "ext \<Rightarrow> args \<Rightarrow> FiberBundle \<Rightarrow> nat \<Rightarrow> real" where
  "directional_at E A fib j =
     (if length (reference_masks A) = length (reference_peaks A)
      then fst (GetDirectionalOverlap E fib (fst (reference_masks A ! j)) (reference_peaks A ! j))
      else 0)"

subsection \<open>Stating the lines and files of a bundle\<close>

text \<open>The name of reference mask \<open>j\<close>, as the log writes it.\<close>

definition mask_name :: "ext \<Rightarrow> args \<Rightarrow> nat \<Rightarrow> string" where
  "mask_name E A j = GetFilenameWithoutExtension E (snd (reference_masks A ! j))"

text \<open>The overlap lines written for the records \<open>c\<close> (volumetric) and \<open>d\<close>
  (directional) in the weight mode and in the joint mode.\<close>

definition overlap_report :: "ext \<Rightarrow> args \<Rightarrow> Overlap \<Rightarrow> Overlap \<Rightarrow> log_line list" where
  "overlap_report E A c d =
     (if 0 \<le> idx c
      then LogBestOverlap (v1 c) (v2 c) (mask_name E A (nat (idx c))) #
           (if 0 \<le> idx d then [LogBestDirOverlap (v1 d) (v2 d) (mask_name E A (nat (idx d)))]
            else [])
      else [LogNoOverlap])"


text \<open>The block of lines of one scored bundle: the score line, with the name, the number
  of covered voxels, the number of fibers and the summed weight of the bundle, and the
  overlap lines of the bundle.\<close>

definition score_block :: "ext \<Rightarrow> args \<Rightarrow> string \<Rightarrow> real \<Rightarrow> FiberBundle \<Rightarrow> log_line list" where
  "score_block E A nm score fib =
     LogRmsDiff score nm (GetNumCoveredVoxels E (mask_image A) fib) (GetNumFibers fib)
       (weight_sum E fib)
     # overlap_report E A (fst (best_overlaps E A fib)) (snd (best_overlaps E A fib))"

text \<open>The name read for position \<open>k\<close> of the pool: the file name at position \<open>k\<close> of
  the list of candidate files.\<close>

definition candidate_name :: "ext \<Rightarrow> run \<Rightarrow> nat \<Rightarrow> string" where
  "candidate_name E s k = GetFilenameWithoutExtension E (candidate_tract_files s ! k)"

text \<open>The file and the lines of the weight mode for position \<open>k\<close> of the pool.\<close>

definition weight_saved :: "ext \<Rightarrow> args \<Rightarrow> run \<Rightarrow> nat \<Rightarrow> saved_file" where
  "weight_saved E A s k =
     SavedFib
       (int_cast (RoundToDouble E
          (real_of_int (score_mod A) * candidate_score A (heap s (input_candidates s ! k)))))
       (candidate_name E s k) (heap s (input_candidates s ! k))"

definition weight_block :: "ext \<Rightarrow> args \<Rightarrow> run \<Rightarrow> nat \<Rightarrow> log_line list" where
  "weight_block E A s k =
     score_block E A (candidate_name E s k)
       (candidate_score A (heap s (input_candidates s ! k))) (heap s (input_candidates s ! k))"




text \<open>\<open>truncated x n\<close>: the integer \<open>n\<close> is \<open>x\<close> cut off towards zero.\<close>

definition truncated :: "real \<Rightarrow> int \<Rightarrow> bool" where
  "truncated x n \<longleftrightarrow>
     \<bar>real_of_int n\<bar> \<le> \<bar>x\<bar> \<and> \<bar>x\<bar> < \<bar>real_of_int n\<bar> + 1 \<and> 0 \<le> real_of_int n * x"

subsection \<open>Stating a pass of the greedy loop\<close>

text \<open>The results of the fits of one pass, in the order of the candidates, and the store
  after the last of them. Every fit starts from the store that the fit before it
  left.\<close>

fun round_fits :: "ext \<Rightarrow> args \<Rightarrow> ptr list \<Rightarrow> run \<Rightarrow> fit_output list" where
  "round_fits E A [] s = []"
| "round_fits E A (cand # rest) s =
     (case Update E (greedy_fit_input A s cand) (heap s) of
        (fitter, h) \<Rightarrow>
          fitter #
          round_fits E A rest
            (s\<lparr>heap := h, fit_calls := fit_calls s @ [greedy_fit_input A s cand]\<rparr>))"










subsection \<open>A fitting filter that preserves bundle identity\<close>

text \<open>Modelled from the spec: the fitting filter \<^verbatim>\<open>itk::FitFibersToImageFilter\<close>, whose
  class is not among the sources. The greedy loop finds the bundle to remove by
  comparing the pointers of the pool with the pointer that \<^verbatim>\<open>GetTractograms\<close> hands
  back. The specification states as an invariant that bundle identity is preserved
  through fitting: the fit attaches weights to the bundles and does not reorder or drop
  anything. \<open>spec_fitter E\<close> are the collaborators \<open>E\<close> with a filter of that kind: its
  errors, its images and the store it leaves are those of the filter of \<open>E\<close>, and the
  tractograms it hands back are the ones it was given.\<close>

definition spec_fitter :: "ext \<Rightarrow> ext" where
  "spec_fitter E =
     E\<lparr>Update := (\<lambda>fi h. case Update E fi h of
                            (fitter, h') \<Rightarrow> (fitter\<lparr>GetTractograms := Tractograms fi\<rparr>, h'))\<rparr>"

section \<open>Properties\<close>

subsection \<open>Auxiliary facts\<close>

lemma rbind_Ok_iff: "rbind m f = Ok y \<longleftrightarrow> (\<exists>x. m = Ok x \<and> f x = Ok y)"
  by (cases m) auto

lemma foldl_nth_upt:
  "foldl (\<lambda>s k. f s (xs ! k)) a [0..<length xs] = foldl f a xs"
proof -
  have "foldl (\<lambda>s k. f s (xs ! k)) a [0..<length xs] = foldl f a (map ((!) xs) [0..<length xs])"
    by (simp add: foldl_map)
  then show ?thesis by (simp only: map_nth)
qed

text \<open>The sum of the weights, fiber by fiber.\<close>

lemma weight_sum_eq:
  "weight_sum E fib = foldl (\<lambda>s f. RoundToDouble E (s + weight f)) 0 fib"
  using foldl_nth_upt [of "\<lambda>s f. RoundToDouble E (s + weight f)" fib 0]
  by (simp add: weight_sum_def GetFiberWeight_def GetNumFibers_def)

lemma greedy_loop_numeral:
  "greedy_loop (numeral k) E A s =
     (if input_candidates s = [] then Ok s
      else rbind (greedy_round E A s) (\<lambda>r.
             if fst r then greedy_loop (pred_numeral k) E A (snd r) else Ok (snd r)))"
  by (simp add: numeral_eq_Suc)

lemmas demo_defs = demo_args_def demo_ext_def demo_heap_def demo_Update_def

lemmas run_defs = main_def initial_run_def anchor_fit_def anchor_fit_input_def run_mode_def
  weights_mode_def weights_body_def score_bundle_def overlap_log_def best_overlaps_def
  no_overlap_def candidate_score_def score_mod_def weight_sum_eq GetNumFibers_def
  GetFiberWeight_def vec_at_def int_cast_def joint_mode_def joint_body_def joint_fit_input_def
  regu_dispatch_def greedy_round_def greedy_fit_input_def greedy_overlap_log_def
  greedy_loop_numeral log_of_def fits_of_def

subsection \<open>The scoring loop\<close>

lemma score_loop_frame:
  "score_loop body s c cands = Ok s' \<Longrightarrow>
     heap s' = heap s \<and> fit_calls s' = fit_calls s \<and> peak_image s' = peak_image s \<and>
     rmse s' = rmse s \<and> input_candidates s' = input_candidates s \<and>
     candidate_tract_files s' = candidate_tract_files s \<and> iteration s' = iteration s \<and>
     name s' = name s"
proof (induction cands arbitrary: s c)
  case Nil
  then show ?case by simp
next
  case (Cons fib rest)
  from Cons.prems obtain out where
    "score_loop body (s\<lparr>saved := saved s @ [fst out], logfile := logfile s @ snd out\<rparr>)
       (Suc c) rest = Ok s'"
    by (auto simp: rbind_Ok_iff)
  from Cons.IH [OF this] show ?case by simp
qed

lemma score_loop_outputs:
  "score_loop body s c cands = Ok s' \<Longrightarrow>
     \<exists>outs. length outs = length cands \<and>
       (\<forall>k<length cands. body (c + k) (cands ! k) = Ok (outs ! k)) \<and>
       saved s' = saved s @ map fst outs \<and>
       logfile s' = logfile s @ concat (map snd outs)"
proof (induction cands arbitrary: s c)
  case Nil
  then show ?case by simp
next
  case (Cons fib rest)
  from Cons.prems obtain out where out: "body c fib = Ok out"
    and rest: "score_loop body (s\<lparr>saved := saved s @ [fst out], logfile := logfile s @ snd out\<rparr>)
                 (Suc c) rest = Ok s'"
    by (auto simp: rbind_Ok_iff)
  from Cons.IH [OF rest] obtain outs where outs: "length outs = length rest"
    "\<forall>k<length rest. body (Suc c + k) (rest ! k) = Ok (outs ! k)"
    "saved s' = (saved s @ [fst out]) @ map fst outs"
    "logfile s' = (logfile s @ snd out) @ concat (map snd outs)"
    by auto
  have "\<forall>k<length (fib # rest). body (c + k) ((fib # rest) ! k) = Ok ((out # outs) ! k)"
  proof (intro allI impI)
    fix k assume "k < length (fib # rest)"
    then show "body (c + k) ((fib # rest) ! k) = Ok ((out # outs) ! k)"
      using out outs(2) by (cases k) auto
  qed
  with outs show ?case
    by (intro exI [of _ "out # outs"]) simp
qed

subsection \<open>The regularization name\<close>

text \<open>
  C9. A regularization name other than the seven names of the dispatch selects nothing:
  \<^verbatim>\<open>SetRegularization\<close> is not called, so the joint fit is made with the default of the
  filter, and the dispatch has no failing branch. Names are compared as they are, so a
  lower-case variant is not recognised.
\<close>

theorem unrecognized_regu_keeps_default:
  assumes "regu A \<notin> {''MSM'', ''Variance'', ''VoxelVariance'', ''Lasso'', ''GroupLasso'',
                       ''GroupVariance'', ''NONE''}"
  shows "regu_dispatch (regu A) = None \<and>
         Regularization (joint_fit_input A s) = None \<and>
         (\<forall>s'. joint_mode E A s = Ok s' \<longrightarrow> fit_calls s' = fit_calls s @ [joint_fit_input A s])"
proof -
  have "fit_calls s' = fit_calls s @ [joint_fit_input A s]" if "joint_mode E A s = Ok s'" for s'
  proof -
    obtain fitter h where u: "Update E (joint_fit_input A s) (heap s) = (fitter, h)"
      by (cases "Update E (joint_fit_input A s) (heap s)")
    with that obtain s1 where
      loop: "score_loop (joint_body E A h (candidate_tract_files s) (GetRmsDiffPerBundle fitter))
               (s\<lparr>heap := h, fit_calls := fit_calls s @ [joint_fit_input A s]\<rparr>) 0
               (input_candidates s) = Ok s1"
      and s': "s' = s1\<lparr>peak_image := GetUnderexplainedImage fitter,
                       saved := saved s1 @
                         [SavedAllCandidates (concat (map h (input_candidates s))),
                          SavedResidual ''AllCandidates'' (GetUnderexplainedImage fitter)]\<rparr>"
      by (auto simp: joint_mode_def rbind_Ok_iff)
    from score_loop_frame [OF loop] s' show ?thesis by simp
  qed
  with assms show ?thesis
    by (simp add: regu_dispatch_def joint_fit_input_def)
qed

theorem unrecognized_regu_keeps_default_witness:
  "regu (demo_args\<lparr>greedy_add := False, regu := ''lasso''\<rparr>) \<notin>
     {''MSM'', ''Variance'', ''VoxelVariance'', ''Lasso'', ''GroupLasso'', ''GroupVariance'', ''NONE''} \<and>
   regu_dispatch ''lasso'' = None \<and>
   regu_dispatch ''none'' = None \<and>
   fits_of (main 0 demo_ext (demo_args\<lparr>greedy_add := False, regu := ''lasso''\<rparr>) demo_heap) =
     Ok [\<lparr>Tractograms = [9], PeakImage = [8, 4], MaskImage = None, Lambda = 1 / 10,
          FilterOutliers = False, Verbose = True, FitIndividualFibers = None,
          Regularization = Some NONE\<rparr>,
         \<lparr>Tractograms = [1, 2], PeakImage = [4, 2], MaskImage = None, Lambda = 1 / 10,
          FilterOutliers = False, Verbose = True, FitIndividualFibers = Some True,
          Regularization = None\<rparr>]"
proof -
  let ?A = "demo_args\<lparr>greedy_add := False, regu := ''lasso''\<rparr>"
  have h: "regu ?A \<notin> {''MSM'', ''Variance'', ''VoxelVariance'', ''Lasso'', ''GroupLasso'',
                        ''GroupVariance'', ''NONE''}"
    by (simp add: demo_defs)
  from unrecognized_regu_keeps_default [OF h, of "initial_run demo_ext ?A demo_heap" demo_ext]
  have "regu_dispatch (regu ?A) = None" by simp
  then have "regu_dispatch ''lasso'' = None" by simp
  with h show ?thesis
    by (simp add: run_defs demo_defs)
qed

subsection \<open>The choice of the mode\<close>

text \<open>
  C10. When \<^verbatim>\<open>use_weights\<close> or \<^verbatim>\<open>use_num_streamlines\<close> is set, the run is the anchor step
  followed by the weight mode, whatever \<^verbatim>\<open>greedy_add\<close> says: neither the joint fit nor
  the greedy loop is entered. When \<^verbatim>\<open>use_weights\<close> is set the score is the weight of the
  first fiber, also when \<^verbatim>\<open>use_num_streamlines\<close> is set as well.
\<close>

theorem mode_precedence:
  "(use_weights A \<or> use_num_streamlines A \<longrightarrow>
      main fuel E A h0 = rbind (anchor_fit E A (initial_run E A h0)) (weights_mode E A)) \<and>
   (use_weights A \<longrightarrow>
      candidate_score A fib = GetFiberWeight fib 0 \<and> score_mod A = 100000)"
  by (auto simp: main_def run_mode_def candidate_score_def score_mod_def fun_eq_iff
           intro!: arg_cong2 [where f = rbind])

theorem mode_precedence_witness:
  "main 0 demo_ext (demo_args\<lparr>use_weights := True, use_num_streamlines := True\<rparr>) demo_heap =
     rbind (anchor_fit demo_ext (demo_args\<lparr>use_weights := True, use_num_streamlines := True\<rparr>)
              (initial_run demo_ext
                 (demo_args\<lparr>use_weights := True, use_num_streamlines := True\<rparr>) demo_heap))
       (weights_mode demo_ext (demo_args\<lparr>use_weights := True, use_num_streamlines := True\<rparr>)) \<and>
   candidate_score (demo_args\<lparr>use_weights := True, use_num_streamlines := True\<rparr>) (demo_heap 2) = 1 \<and>
   log_of (main 0 demo_ext (demo_args\<lparr>use_weights := True, use_num_streamlines := True\<rparr>)
             demo_heap) =
     Ok [LogVersion, LogAnchor (9 / 4) ''NOANCHOR'' 10,
         LogRmsDiff (5 / 2) ''a'' 3 1 (5 / 2), LogBestOverlap (4 / 5) (1 / 2) ''m1'',
         LogBestDirOverlap (9 / 10) (3 / 10) ''m2'',
         LogRmsDiff 1 ''b'' 6 2 1, LogBestOverlap (4 / 5) (1 / 2) ''m1'',
         LogBestDirOverlap (9 / 10) (3 / 10) ''m2'']"
proof -
  let ?A = "demo_args\<lparr>use_weights := True, use_num_streamlines := True\<rparr>"
  have h: "use_weights ?A \<or> use_num_streamlines ?A" "use_weights ?A"
    by (simp_all add: demo_defs)
  from mode_precedence [of ?A 0 demo_ext demo_heap "demo_heap 2"] h
  have "main 0 demo_ext ?A demo_heap =
          rbind (anchor_fit demo_ext ?A (initial_run demo_ext ?A demo_heap))
            (weights_mode demo_ext ?A)"
    and "candidate_score ?A (demo_heap 2) = GetFiberWeight (demo_heap 2) 0"
    by simp_all
  moreover have "GetFiberWeight (demo_heap 2) 0 = 1"
    by (simp add: GetFiberWeight_def demo_defs)
  moreover have "log_of (main 0 demo_ext ?A demo_heap) =
     Ok [LogVersion, LogAnchor (9 / 4) ''NOANCHOR'' 10,
         LogRmsDiff (5 / 2) ''a'' 3 1 (5 / 2), LogBestOverlap (4 / 5) (1 / 2) ''m1'',
         LogBestDirOverlap (9 / 10) (3 / 10) ''m2'',
         LogRmsDiff 1 ''b'' 6 2 1, LogBestOverlap (4 / 5) (1 / 2) ''m1'',
         LogBestDirOverlap (9 / 10) (3 / 10) ''m2'']"
    by (simp add: run_defs demo_defs)
  ultimately show ?thesis by simp
qed

subsection \<open>Overlap with aligned references\<close>

text \<open>The two overlaps of the loop do not influence each other: each is a running
  maximum of its own.\<close>

lemma best_aligned_track:
  "best_aligned k xs (c, d) = (track k (map prod.swap xs) c, track k xs d)"
  by (induction xs arbitrary: k c d) auto

lemma track_first_maximum:
  "(if \<exists>j<length xs. v1 b < fst (xs ! j)
    then \<exists>j<length xs. track k xs b = Overlap (fst (xs ! j)) (snd (xs ! j)) (int (k + j)) \<and>
           v1 b < fst (xs ! j) \<and>
           (\<forall>i<length xs. fst (xs ! i) \<le> fst (xs ! j)) \<and>
           (\<forall>i<j. fst (xs ! i) < fst (xs ! j))
    else track k xs b = b)"
proof (induction xs arbitrary: k b)
  case Nil
  then show ?case by simp
next
  case (Cons p xs)
  obtain x y where p: "p = (x, y)" by (cases p)
  let ?b = "if x > v1 b then Overlap x y (int k) else b"
  have step: "track k (p # xs) b = track (Suc k) xs ?b" by (simp add: p)
  have vb: "v1 b \<le> v1 ?b" "v1 ?b = max (v1 b) x" by auto
  show ?case
  proof (cases "\<exists>j<length xs. v1 ?b < fst (xs ! j)")
    case True
    with Cons.IH [of ?b "Suc k"] obtain j where j: "j < length xs"
      "track (Suc k) xs ?b = Overlap (fst (xs ! j)) (snd (xs ! j)) (int (Suc k + j))"
      "v1 ?b < fst (xs ! j)" "\<forall>i<length xs. fst (xs ! i) \<le> fst (xs ! j)"
      "\<forall>i<j. fst (xs ! i) < fst (xs ! j)"
      by (auto split: if_splits)
    from j(3) vb have xj: "x < fst (xs ! j)" "v1 b < fst (xs ! j)" by auto
    have "\<forall>i<length (p # xs). fst ((p # xs) ! i) \<le> fst ((p # xs) ! Suc j)"
      using j(4) xj(1) by (auto simp: nth_Cons p split: nat.splits)
    moreover have "\<forall>i<Suc j. fst ((p # xs) ! i) < fst ((p # xs) ! Suc j)"
      using j(5) xj(1) by (auto simp: nth_Cons p split: nat.splits)
    moreover have "track k (p # xs) b =
        Overlap (fst ((p # xs) ! Suc j)) (snd ((p # xs) ! Suc j)) (int (k + Suc j))"
      using step j(2) by simp
    moreover have "Suc j < length (p # xs)" "v1 b < fst ((p # xs) ! Suc j)"
      using j(1) xj(2) by auto
    ultimately have "\<exists>j<length (p # xs). track k (p # xs) b =
           Overlap (fst ((p # xs) ! j)) (snd ((p # xs) ! j)) (int (k + j)) \<and>
           v1 b < fst ((p # xs) ! j) \<and>
           (\<forall>i<length (p # xs). fst ((p # xs) ! i) \<le> fst ((p # xs) ! j)) \<and>
           (\<forall>i<j. fst ((p # xs) ! i) < fst ((p # xs) ! j))"
      by blast
    moreover have "\<exists>j<length (p # xs). v1 b < fst ((p # xs) ! j)"
      using \<open>Suc j < length (p # xs)\<close> \<open>v1 b < fst ((p # xs) ! Suc j)\<close> by blast
    ultimately show ?thesis by (simp only: if_True)
  next
    case False
    with Cons.IH [of ?b "Suc k"] have t: "track (Suc k) xs ?b = ?b" by (auto split: if_splits)
    from False have le: "\<forall>i<length xs. fst (xs ! i) \<le> v1 ?b"
      by (meson not_less)
    show ?thesis
    proof (cases "x > v1 b")
      case True
      then have "track k (p # xs) b = Overlap (fst ((p # xs) ! 0)) (snd ((p # xs) ! 0)) (int (k + 0))"
        using step t by (simp add: p)
      moreover have "\<forall>i<length (p # xs). fst ((p # xs) ! i) \<le> fst ((p # xs) ! 0)"
        using le True by (auto simp: nth_Cons p split: nat.splits)
      moreover have "0 < length (p # xs)" "v1 b < fst ((p # xs) ! 0)"
        using True by (auto simp: p)
      ultimately have "\<exists>j<length (p # xs). track k (p # xs) b =
           Overlap (fst ((p # xs) ! j)) (snd ((p # xs) ! j)) (int (k + j)) \<and>
           v1 b < fst ((p # xs) ! j) \<and>
           (\<forall>i<length (p # xs). fst ((p # xs) ! i) \<le> fst ((p # xs) ! j)) \<and>
           (\<forall>i<j. fst ((p # xs) ! i) < fst ((p # xs) ! j))"
        by (intro exI [of _ 0]) simp
      moreover have "\<exists>j<length (p # xs). v1 b < fst ((p # xs) ! j)"
        using \<open>0 < length (p # xs)\<close> \<open>v1 b < fst ((p # xs) ! 0)\<close> by blast
      ultimately show ?thesis by (simp only: if_True)
    next
      case False
      then have "track k (p # xs) b = b" using step t by simp
      moreover have "\<not> (\<exists>j<length (p # xs). v1 b < fst ((p # xs) ! j))"
        using le False by (auto simp: nth_Cons p not_less split: nat.splits)
      ultimately show ?thesis by (simp only: if_False)
    qed
  qed
qed


lemma track_nth:
  assumes "length xs = n" and "\<forall>j<n. xs ! j = g j"
  shows "(if \<exists>j<n. 0 < fst (g j)
          then \<exists>j<n. track 0 xs no_overlap = Overlap (fst (g j)) (snd (g j)) (int j) \<and>
                 (\<forall>i<n. fst (g i) \<le> fst (g j)) \<and> (\<forall>i<j. fst (g i) < fst (g j))
          else track 0 xs no_overlap = no_overlap)"
proof (cases "\<exists>j<n. 0 < fst (g j)")
  case True
  with assms have "\<exists>j<length xs. v1 no_overlap < fst (xs ! j)"
    by (auto simp: no_overlap_def)
  with track_first_maximum [where b = no_overlap and xs = xs and k = 0] obtain j where j: "j < length xs"
    "track 0 xs no_overlap = Overlap (fst (xs ! j)) (snd (xs ! j)) (int (0 + j))"
    "\<forall>i<length xs. fst (xs ! i) \<le> fst (xs ! j)" "\<forall>i<j. fst (xs ! i) < fst (xs ! j)"
    by (auto split: if_splits)
  from j assms have "j < n \<and> track 0 xs no_overlap = Overlap (fst (g j)) (snd (g j)) (int j) \<and>
      (\<forall>i<n. fst (g i) \<le> fst (g j)) \<and> (\<forall>i<j. fst (g i) < fst (g j))"
    by auto
  with True show ?thesis by auto
next
  case False
  with assms have "\<not> (\<exists>j<length xs. v1 no_overlap < fst (xs ! j))"
    by (auto simp: no_overlap_def)
  with track_first_maximum [where b = no_overlap and xs = xs and k = 0] have "track 0 xs no_overlap = no_overlap"
    by (auto split: if_splits)
  with False show ?thesis by auto
qed

text \<open>
  C4. With as many reference peak images as reference masks, the scoring of a bundle
  keeps two records. \<^verbatim>\<open>classic\<close> holds the largest volumetric overlap, the directional
  overlap at the same reference, and the index of that reference; \<^verbatim>\<open>directional\<close> holds
  the largest directional overlap, the volumetric overlap at the same reference, and its
  index. Each index is the first one at which the maximum is reached, the two indices
  need not agree, and a record stays at \<open>(0, 0, -1)\<close> when no reference has a positive
  value.
\<close>

theorem aligned_overlap_tracks_both:
  assumes "length (reference_masks A) = length (reference_peaks A)"
  shows
    "(if \<exists>j<length (reference_masks A). 0 < snd (overlap_at E A fib j)
      then \<exists>j<length (reference_masks A).
             fst (best_overlaps E A fib) =
               Overlap (snd (overlap_at E A fib j)) (fst (overlap_at E A fib j)) (int j) \<and>
             (\<forall>i<length (reference_masks A).
                snd (overlap_at E A fib i) \<le> snd (overlap_at E A fib j)) \<and>
             (\<forall>i<j. snd (overlap_at E A fib i) < snd (overlap_at E A fib j))
      else fst (best_overlaps E A fib) = no_overlap) \<and>
     (if \<exists>j<length (reference_masks A). 0 < fst (overlap_at E A fib j)
      then \<exists>j<length (reference_masks A).
             snd (best_overlaps E A fib) =
               Overlap (fst (overlap_at E A fib j)) (snd (overlap_at E A fib j)) (int j) \<and>
             (\<forall>i<length (reference_masks A).
                fst (overlap_at E A fib i) \<le> fst (overlap_at E A fib j)) \<and>
             (\<forall>i<j. fst (overlap_at E A fib i) < fst (overlap_at E A fib j))
      else snd (best_overlaps E A fib) = no_overlap)"
proof -
  let ?n = "length (reference_masks A)"
  let ?xs = "map2 (\<lambda>ref_mask ref_peak. GetDirectionalOverlap E fib (fst ref_mask) ref_peak)
               (reference_masks A) (reference_peaks A)"
  have len: "length ?xs = ?n" using assms by simp
  have nth: "\<forall>j<?n. ?xs ! j = overlap_at E A fib j"
    using assms by (simp add: overlap_at_def)
  have best: "best_overlaps E A fib = (track 0 (map prod.swap ?xs) no_overlap, track 0 ?xs no_overlap)"
    using assms by (simp add: best_overlaps_def best_aligned_track)
  have len': "length (map prod.swap ?xs) = ?n" using len by simp
  have nth': "\<forall>j<?n. map prod.swap ?xs ! j = prod.swap (overlap_at E A fib j)"
    using assms by (simp add: overlap_at_def)
  from track_nth [OF len' nth'] track_nth [OF len nth] show ?thesis
    by (simp only: best fst_conv snd_conv fst_swap snd_swap)
qed

theorem aligned_overlap_tracks_both_witness:
  "length (reference_masks demo_args) = length (reference_peaks demo_args) \<and>
   overlap_at demo_ext demo_args (demo_heap 1) 1 = (1 / 2, 4 / 5) \<and>
   overlap_at demo_ext demo_args (demo_heap 1) 2 = (9 / 10, 3 / 10) \<and>
   best_overlaps demo_ext demo_args (demo_heap 1) =
     (Overlap (4 / 5) (1 / 2) 1, Overlap (9 / 10) (3 / 10) 2)"
proof -
  have h: "length (reference_masks demo_args) = length (reference_peaks demo_args)"
    by (simp add: demo_defs)
  have e: "overlap_at demo_ext demo_args (demo_heap 1) 1 = (1 / 2, 4 / 5)"
    "overlap_at demo_ext demo_args (demo_heap 1) 2 = (9 / 10, 3 / 10)"
    by (simp_all add: overlap_at_def demo_defs)
  have b: "best_overlaps demo_ext demo_args (demo_heap 1) =
     (Overlap (4 / 5) (1 / 2) 1, Overlap (9 / 10) (3 / 10) 2)"
    by (simp add: run_defs demo_defs)
  from aligned_overlap_tracks_both [OF h, of demo_ext "demo_heap 1"] h e b show ?thesis
    by simp
qed

subsection \<open>The greedy mode: the error that is compared and recorded\<close>

lemma recorded_rmse_append [simp]:
  "recorded_rmse (xs @ ys) = recorded_rmse xs @ recorded_rmse ys"
  by (simp add: recorded_rmse_def)

lemma greedy_fits_frame:
  "greedy_fits E A cands (s, b) = Ok (s', b') \<Longrightarrow>
     rmse s' = rmse s \<and> peak_image s' = peak_image s \<and>
     input_candidates s' = input_candidates s \<and>
     candidate_tract_files s' = candidate_tract_files s \<and> iteration s' = iteration s \<and>
     name s' = name s \<and> logfile s' = logfile s \<and> saved s' = saved s"
proof (induction cands arbitrary: s b)
  case Nil
  then show ?case by simp
next
  case (Cons cand rest)
  obtain fitter h where u: "Update E (greedy_fit_input A s cand) (heap s) = (fitter, h)"
    by (cases "Update E (greedy_fit_input A s cand) (heap s)")
  let ?s = "s\<lparr>heap := h, fit_calls := fit_calls s @ [greedy_fit_input A s cand]\<rparr>"
  from Cons.prems u obtain b1 where "greedy_fits E A rest (?s, b1) = Ok (s', b')"
    by (auto simp: rbind_Ok_iff split: if_splits)
  from Cons.IH [OF this] show ?case by simp
qed

lemma best_masks_idx:
  "idx (best_masks k os c) = idx c \<or>
   (int k \<le> idx (best_masks k os c) \<and> idx (best_masks k os c) < int (k + length os))"
proof (induction os arbitrary: k c)
  case Nil
  then show ?case by simp
next
  case (Cons x os)
  let ?c = "if x > v1 c then Overlap x (v2 c) (int k) else c"
  from Cons.IH [of "Suc k" ?c] show ?case by (auto split: if_splits)
qed

lemma greedy_overlap_log_total:
  "\<exists>ol. greedy_overlap_log E A fib = Ok ol \<and>
        (ol = LogNoOverlap \<or> (\<exists>v m. ol = LogBestOverlapGreedy v m))"
proof -
  let ?os = "map (\<lambda>ref_mask. GetOverlap E fib (fst ref_mask)) (reference_masks A)"
  from best_masks_idx [of 0 ?os no_overlap]
  have "idx (best_masks 0 ?os no_overlap) \<ge> 0 \<Longrightarrow>
          nat (idx (best_masks 0 ?os no_overlap)) < length (reference_masks A)"
    by (auto simp: no_overlap_def)
  then show ?thesis
    by (auto simp: greedy_overlap_log_def Let_def vec_at_def)
qed

lemma recorded_rmse_overlap_line:
  "greedy_overlap_log E A fib = Ok ol \<Longrightarrow> recorded_rmse [LogRmse r n p, ol] = [r]"
  using greedy_overlap_log_total [of E A fib] by (auto simp: recorded_rmse_def)

lemma greedy_round_cases:
  assumes "greedy_round E A s = Ok (c, s')"
  obtains (stop) s1 b1 where
      "greedy_fits E A (input_candidates s)
         (s, \<lparr>next_rmse = rmse s, num_peaks = 0, best_candidate = None\<rparr>) = Ok (s1, b1)"
      "best_candidate b1 = None" "\<not> c" "s' = s1"
  | (select) s1 b1 bc img rem fs nm ol where
      "greedy_fits E A (input_candidates s)
         (s, \<lparr>next_rmse = rmse s, num_peaks = 0, best_candidate = None\<rparr>) = Ok (s1, b1)"
      "best_candidate b1 = Some (bc, img)"
      "remove_best E bc 0 (input_candidates s1) (candidate_tract_files s1) (name s1) =
         Ok (rem, fs, nm)"
      "greedy_overlap_log E A
         (if filter_zero_weights A then FilterByWeights E (heap s1 bc) 0 else heap s1 bc) = Ok ol"
      "c"
      "s' = s1\<lparr>peak_image := img, input_candidates := rem, candidate_tract_files := fs,
                name := nm, iteration := iteration s1 + 1,
                saved := saved s1 @
                  [SavedFib (Some (iteration s1 + 1)) nm
                     (if filter_zero_weights A then FilterByWeights E (heap s1 bc) 0
                      else heap s1 bc),
                   SavedRound (iteration s1 + 1) nm img],
                logfile := logfile s1 @ [LogRmse (rmse s1) nm (num_peaks b1), ol]\<rparr>"
proof -
  from assms obtain sb where
    fits: "greedy_fits E A (input_candidates s)
             (s, \<lparr>next_rmse = rmse s, num_peaks = 0, best_candidate = None\<rparr>) = Ok sb"
    and rest: "(case best_candidate (snd sb) of
         None \<Rightarrow> Ok (False, fst sb)
       | Some (bc, bc_peak_image) \<Rightarrow>
           rbind (remove_best E bc 0 (input_candidates (fst sb))
                    (candidate_tract_files (fst sb)) (name (fst sb))) (\<lambda>r.
             rbind (greedy_overlap_log E A
                      (if filter_zero_weights A then FilterByWeights E (heap (fst sb) bc) 0
                       else heap (fst sb) bc)) (\<lambda>overlap_line.
               Ok (True,
                   (fst sb)\<lparr>peak_image := bc_peak_image,
                            input_candidates := fst r,
                            candidate_tract_files := fst (snd r),
                            name := snd (snd r),
                            iteration := iteration (fst sb) + 1,
                            saved := saved (fst sb) @
                              [SavedFib (Some (iteration (fst sb) + 1)) (snd (snd r))
                                 (if filter_zero_weights A
                                  then FilterByWeights E (heap (fst sb) bc) 0
                                  else heap (fst sb) bc),
                               SavedRound (iteration (fst sb) + 1) (snd (snd r)) bc_peak_image],
                            logfile := logfile (fst sb) @
                              [LogRmse (rmse (fst sb)) (snd (snd r)) (num_peaks (snd sb)),
                               overlap_line]\<rparr>)))) = Ok (c, s')"
    unfolding greedy_round_def rbind_Ok_iff by blast
  obtain s1 b1 where sb: "sb = (s1, b1)" by (cases sb)
  show thesis
  proof (cases "best_candidate b1")
    case None
    with rest sb have "\<not> c" "s' = s1" by auto
    with fits sb None show thesis by (intro stop) auto
  next
    case (Some bp)
    obtain bc img where bp: "bp = (bc, img)" by (cases bp)
    from rest [unfolded sb fst_conv snd_conv Some bp option.case prod.case rbind_Ok_iff]
    obtain r ol where
      r: "remove_best E bc 0 (input_candidates s1) (candidate_tract_files s1) (name s1) = Ok r"
      and ol: "greedy_overlap_log E A
         (if filter_zero_weights A then FilterByWeights E (heap s1 bc) 0 else heap s1 bc) = Ok ol"
      and res0: "Ok (True, s1\<lparr>peak_image := img, input_candidates := fst r,
                candidate_tract_files := fst (snd r),
                name := snd (snd r), iteration := iteration s1 + 1,
                saved := saved s1 @
                  [SavedFib (Some (iteration s1 + 1)) (snd (snd r))
                     (if filter_zero_weights A then FilterByWeights E (heap s1 bc) 0
                      else heap s1 bc),
                   SavedRound (iteration s1 + 1) (snd (snd r)) img],
                logfile := logfile s1 @ [LogRmse (rmse s1) (snd (snd r)) (num_peaks b1), ol]\<rparr>)
            = Ok (c, s')"
      by blast
    from res0 have res: "c" "s' = s1\<lparr>peak_image := img, input_candidates := fst r,
                candidate_tract_files := fst (snd r),
                name := snd (snd r), iteration := iteration s1 + 1,
                saved := saved s1 @
                  [SavedFib (Some (iteration s1 + 1)) (snd (snd r))
                     (if filter_zero_weights A then FilterByWeights E (heap s1 bc) 0
                      else heap s1 bc),
                   SavedRound (iteration s1 + 1) (snd (snd r)) img],
                logfile := logfile s1 @ [LogRmse (rmse s1) (snd (snd r)) (num_peaks b1), ol]\<rparr>"
      by simp_all
    obtain rem fs nm where "r = (rem, fs, nm)" by (cases r)
    with fits sb Some bp r ol res show thesis
      by (intro select [of s1 b1 bc img rem fs nm ol]) auto
  qed
qed

text \<open>A round leaves \<^verbatim>\<open>rmse\<close> as it is, and writes it to the log when it selects.\<close>

lemma greedy_round_rmse:
  assumes "greedy_round E A s = Ok (c, s')"
  shows "rmse s' = rmse s \<and>
         recorded_rmse (logfile s') = recorded_rmse (logfile s) @ (if c then [rmse s] else [])"
  using assms
proof (cases rule: greedy_round_cases)
  case (stop s1 b1)
  with greedy_fits_frame [OF stop(1)] show ?thesis by simp
next
  case (select s1 b1 bc img rem fs nm ol)
  with greedy_fits_frame [OF select(1)] recorded_rmse_overlap_line [OF select(4)]
  show ?thesis by simp
qed

lemma greedy_loop_Suc_Ok:
  assumes "greedy_loop (Suc n) E A s = Ok s'" and "input_candidates s \<noteq> []"
  shows "\<exists>c s1. greedy_round E A s = Ok (c, s1) \<and>
           (c \<longrightarrow> greedy_loop n E A s1 = Ok s') \<and> (\<not> c \<longrightarrow> s1 = s')"
proof -
  from assms have "rbind (greedy_round E A s) (\<lambda>r.
             if fst r then greedy_loop n E A (snd r) else Ok (snd r)) = Ok s'"
    by simp
  then obtain r where r: "greedy_round E A s = Ok r"
    "(if fst r then greedy_loop n E A (snd r) else Ok (snd r)) = Ok s'"
    unfolding rbind_Ok_iff by blast
  have "greedy_round E A s = Ok (fst r, snd r)" using r by simp
  moreover have "fst r \<longrightarrow> greedy_loop n E A (snd r) = Ok s'"
    using r(2) by (cases "fst r") simp_all
  moreover have "\<not> fst r \<longrightarrow> snd r = s'"
    using r(2) by (cases "fst r") simp_all
  ultimately show ?thesis by blast
qed

lemma greedy_loop_rmse:
  "greedy_loop n E A s = Ok s' \<Longrightarrow>
     rmse s' = rmse s \<and>
     (\<exists>m. recorded_rmse (logfile s') = recorded_rmse (logfile s) @ replicate m (rmse s))"
proof (induction n arbitrary: s)
  case 0
  then show ?case by (auto split: if_splits)
next
  case (Suc n)
  show ?case
  proof (cases "input_candidates s = []")
    case True
    with Suc.prems show ?thesis by auto
  next
    case False
    from greedy_loop_Suc_Ok [OF Suc.prems False]
    obtain c s1 where r: "greedy_round E A s = Ok (c, s1)"
      and rest: "c \<longrightarrow> greedy_loop n E A s1 = Ok s'" "\<not> c \<longrightarrow> s1 = s'"
      by blast
    note rr = greedy_round_rmse [OF r]
    show ?thesis
    proof (cases c)
      case True
      with rest have "greedy_loop n E A s1 = Ok s'" by simp
      from Suc.IH [OF this] obtain m where
        "rmse s' = rmse s1" "recorded_rmse (logfile s') = recorded_rmse (logfile s1) @ replicate m (rmse s1)"
        by auto
      with rr True have "rmse s' = rmse s"
        "recorded_rmse (logfile s') = recorded_rmse (logfile s) @ replicate (Suc m) (rmse s)"
        by auto
      then show ?thesis by blast
    next
      case False
      with rest rr have "rmse s' = rmse s"
        "recorded_rmse (logfile s') = recorded_rmse (logfile s) @ replicate 0 (rmse s)"
        by auto
      then show ?thesis by blast
    qed
  qed
qed

lemma anchor_fit_recorded_rmse:
  "anchor_fit E A s = Ok s' \<Longrightarrow> recorded_rmse (logfile s') = recorded_rmse (logfile s)"
  by (auto simp: anchor_fit_def rbind_Ok_iff recorded_rmse_def
           split: option.splits if_splits prod.splits)

lemma log_of_Ok_iff: "log_of r = Ok ls \<longleftrightarrow> (\<exists>s. r = Ok s \<and> logfile s = ls)"
  by (auto simp: log_of_def rbind_Ok_iff)

text \<open>
  C2. In a greedy run the values recorded after \<^verbatim>\<open>RMSE:\<close> never increase from one
  selection round to the next.
\<close>

theorem greedy_recorded_rmse_non_increasing:
  assumes "\<not> use_weights A" and "\<not> use_num_streamlines A" and "greedy_add A"
    and "log_of (main fuel E A h0) = Ok ls"
    and "Suc k < length (recorded_rmse ls)"
  shows "recorded_rmse ls ! Suc k \<le> recorded_rmse ls ! k"
proof -
  from assms(4) obtain s' where s': "main fuel E A h0 = Ok s'" "logfile s' = ls"
    by (auto simp: log_of_Ok_iff)
  from assms(1-3) s'(1) obtain s where a: "anchor_fit E A (initial_run E A h0) = Ok s"
    and g: "greedy_loop fuel E A s = Ok s'"
    by (auto simp: main_def run_mode_def rbind_Ok_iff)
  have "recorded_rmse (logfile (initial_run E A h0)) = []"
    by (simp add: initial_run_def recorded_rmse_def)
  with anchor_fit_recorded_rmse [OF a] have "recorded_rmse (logfile s) = []" by simp
  with greedy_loop_rmse [OF g] s'(2) obtain m where
    m: "recorded_rmse ls = replicate m (rmse s)" by auto
  with assms(5) show ?thesis by simp
qed

theorem greedy_recorded_rmse_non_increasing_witness:
  "\<not> use_weights demo_args \<and> \<not> use_num_streamlines demo_args \<and> greedy_add demo_args \<and>
   log_of (main 2 demo_ext demo_args demo_heap) =
     Ok [LogVersion, LogAnchor (9 / 4) ''NOANCHOR'' 10,
         LogRmse 10 ''a'' 2, LogBestOverlapGreedy (4 / 5) ''m1'',
         LogRmse 10 ''b'' 2, LogBestOverlapGreedy (4 / 5) ''m1''] \<and>
   recorded_rmse [LogVersion, LogAnchor (9 / 4) ''NOANCHOR'' 10,
         LogRmse 10 ''a'' 2, LogBestOverlapGreedy (4 / 5) ''m1'',
         LogRmse 10 ''b'' 2, LogBestOverlapGreedy (4 / 5) ''m1''] = [10, 10] \<and>
   [10, 10::real] ! Suc 0 \<le> [10, 10] ! 0"
proof -
  let ?ls = "[LogVersion, LogAnchor (9 / 4) ''NOANCHOR'' 10,
         LogRmse 10 ''a'' 2, LogBestOverlapGreedy (4 / 5) ''m1'',
         LogRmse 10 ''b'' 2, LogBestOverlapGreedy (4 / 5) ''m1'']"
  have f: "\<not> use_weights demo_args" "\<not> use_num_streamlines demo_args" "greedy_add demo_args"
    by (simp_all add: demo_defs)
  have l: "log_of (main 2 demo_ext demo_args demo_heap) = Ok ?ls"
    by (simp add: run_defs demo_defs)
  have r: "recorded_rmse ?ls = [10, 10]"
    by (simp add: recorded_rmse_def)
  then have k: "Suc 0 < length (recorded_rmse ?ls)" by simp
  from greedy_recorded_rmse_non_increasing [OF f l k] f l r show ?thesis
    by simp
qed

text \<open>
  C1. A round that selects a candidate removes it from the pool and makes the residual
  image of its fit the current peak image, but \<^verbatim>\<open>rmse\<close> is not assigned: the winner's
  error stays in \<^verbatim>\<open>next_rmse\<close>, which is set anew from \<^verbatim>\<open>rmse\<close> at the start of the next
  round. In the run below the anchor fit has error 10 and the candidates have errors 4
  and 6. After the first round, which selects the candidate with error 4, the error used
  for the next comparison is still 10, and the second round selects the candidate with
  error 6.
\<close>

theorem greedy_rmse_stays_at_baseline:
  "GetRMSE (fst (Update demo_ext
      \<lparr>Tractograms = [1], PeakImage = [4, 2], MaskImage = None, Lambda = 1 / 10,
       FilterOutliers = False, Verbose = False, FitIndividualFibers = None,
       Regularization = None\<rparr> demo_heap)) = 4 \<and>
   summary_of (first_round demo_ext demo_args demo_heap) = Ok (10, 1, [2], [2, 1]) \<and>
   summary_of (main 2 demo_ext demo_args demo_heap) = Ok (10, 2, [], [1, 1 / 2])"
  by (simp add: summary_of_def first_round_def run_defs demo_defs)

subsection \<open>The greedy mode: termination\<close>








lemma vec_at_fuel [simp]: "vec_at xs k \<noteq> OutOfFuel"
  by (simp add: vec_at_def)


subsection \<open>The fits of a run\<close>

lemma greedy_fits_calls:
  "greedy_fits E A cands (s, b) = Ok (s', b') \<Longrightarrow>
     fit_calls s' = fit_calls s @ map (greedy_fit_input A s) cands"
proof (induction cands arbitrary: s b)
  case Nil
  then show ?case by simp
next
  case (Cons cand rest)
  obtain fitter h where u: "Update E (greedy_fit_input A s cand) (heap s) = (fitter, h)"
    by (cases "Update E (greedy_fit_input A s cand) (heap s)")
  let ?s = "s\<lparr>heap := h, fit_calls := fit_calls s @ [greedy_fit_input A s cand]\<rparr>"
  from Cons.prems u obtain b1 where "greedy_fits E A rest (?s, b1) = Ok (s', b')"
    by (auto simp: rbind_Ok_iff split: if_splits)
  from Cons.IH [OF this] have "fit_calls s' = fit_calls ?s @ map (greedy_fit_input A ?s) rest" .
  moreover have "greedy_fit_input A ?s = greedy_fit_input A s"
    by (simp add: greedy_fit_input_def fun_eq_iff)
  ultimately show ?case by simp
qed

lemma remove_best_subset:
  "remove_best E bc k cands files nm = Ok (rem, fs, nm') \<Longrightarrow> set rem \<subseteq> set cands"
proof (induction cands arbitrary: k nm rem fs nm')
  case Nil
  then show ?case by simp
next
  case (Cons fib rest)
  show ?case
  proof (cases "fib = bc")
    case True
    with Cons.prems obtain f where
      "remove_best E bc (Suc k) rest files (GetFilenameWithoutExtension E f) = Ok (rem, fs, nm')"
      by (auto simp: rbind_Ok_iff)
    from Cons.IH [OF this] show ?thesis by auto
  next
    case False
    with Cons.prems obtain r where
      r: "remove_best E bc (Suc k) rest files nm = Ok r" and "rem = fib # fst r"
      by (auto simp: rbind_Ok_iff)
    obtain a b c where "r = (a, b, c)" by (cases r)
    with r Cons.IH [of "Suc k" nm a b c] \<open>rem = fib # fst r\<close> show ?thesis by auto
  qed
qed

text \<open>The fits of one pass are the fits of the candidates of the pool, on the current
  peak image; the pool does not grow.\<close>

lemma greedy_round_calls:
  assumes "greedy_round E A s = Ok (c, s')"
  shows "fit_calls s' = fit_calls s @ map (greedy_fit_input A s) (input_candidates s) \<and>
         set (input_candidates s') \<subseteq> set (input_candidates s)"
  using assms
proof (cases rule: greedy_round_cases)
  case (stop s1 b1)
  with greedy_fits_frame [OF stop(1)] greedy_fits_calls [OF stop(1)] show ?thesis by simp
next
  case (select s1 b1 bc img rem fs nm ol)
  from remove_best_subset [OF select(3)] greedy_fits_frame [OF select(1)]
  have "set rem \<subseteq> set (input_candidates s)" by simp
  with select greedy_fits_calls [OF select(1)] show ?thesis by simp
qed

lemma greedy_loop_calls:
  "greedy_loop n E A s = Ok s' \<Longrightarrow>
     set (input_candidates s') \<subseteq> set (input_candidates s) \<and>
     (\<exists>calls. fit_calls s' = fit_calls s @ calls \<and>
        (\<forall>fi\<in>set calls. set (Tractograms fi) \<subseteq> set (input_candidates s)))"
proof (induction n arbitrary: s)
  case 0
  then show ?case by (auto split: if_splits)
next
  case (Suc n)
  show ?case
  proof (cases "input_candidates s = []")
    case True
    with Suc.prems show ?thesis by auto
  next
    case False
    from greedy_loop_Suc_Ok [OF Suc.prems False]
    obtain c s1 where r: "greedy_round E A s = Ok (c, s1)"
      and rest: "c \<longrightarrow> greedy_loop n E A s1 = Ok s'" "\<not> c \<longrightarrow> s1 = s'"
      by blast
    note rc = greedy_round_calls [OF r]
    let ?round = "map (greedy_fit_input A s) (input_candidates s)"
    have round: "\<forall>fi\<in>set ?round. set (Tractograms fi) \<subseteq> set (input_candidates s)"
      by (auto simp: greedy_fit_input_def)
    show ?thesis
    proof (cases c)
      case True
      with rest have "greedy_loop n E A s1 = Ok s'" by simp
      from Suc.IH [OF this] obtain calls where
        sub: "set (input_candidates s') \<subseteq> set (input_candidates s1)"
        and calls: "fit_calls s' = fit_calls s1 @ calls"
          "\<forall>fi\<in>set calls. set (Tractograms fi) \<subseteq> set (input_candidates s1)"
        by blast
      from calls rc have "fit_calls s' = fit_calls s @ (?round @ calls)" by simp
      moreover from calls(2) rc
      have "\<forall>fi\<in>set calls. set (Tractograms fi) \<subseteq> set (input_candidates s)"
        by blast
      with round
      have "\<forall>fi\<in>set (?round @ calls). set (Tractograms fi) \<subseteq> set (input_candidates s)"
        by auto
      moreover from sub rc have "set (input_candidates s') \<subseteq> set (input_candidates s)"
        by auto
      ultimately show ?thesis by blast
    next
      case False
      with rest rc round show ?thesis by auto
    qed
  qed
qed

lemma joint_mode_cases:
  assumes "joint_mode E A s = Ok s'"
  obtains fitter h s1 where
    "Update E (joint_fit_input A s) (heap s) = (fitter, h)"
    "score_loop (joint_body E A h (candidate_tract_files s) (GetRmsDiffPerBundle fitter))
       (s\<lparr>heap := h, fit_calls := fit_calls s @ [joint_fit_input A s]\<rparr>) 0
       (input_candidates s) = Ok s1"
    "s' = s1\<lparr>peak_image := GetUnderexplainedImage fitter,
             saved := saved s1 @
               [SavedAllCandidates (concat (map h (input_candidates s))),
                SavedResidual ''AllCandidates'' (GetUnderexplainedImage fitter)]\<rparr>"
proof -
  obtain fitter h where u: "Update E (joint_fit_input A s) (heap s) = (fitter, h)"
    by (cases "Update E (joint_fit_input A s) (heap s)")
  with assms obtain s1 where
    loop: "score_loop (joint_body E A h (candidate_tract_files s) (GetRmsDiffPerBundle fitter))
             (s\<lparr>heap := h, fit_calls := fit_calls s @ [joint_fit_input A s]\<rparr>) 0
             (input_candidates s) = Ok s1"
    and s': "s' = s1\<lparr>peak_image := GetUnderexplainedImage fitter,
                    saved := saved s1 @
                      [SavedAllCandidates (concat (map h (input_candidates s))),
                       SavedResidual ''AllCandidates'' (GetUnderexplainedImage fitter)]\<rparr>"
    by (auto simp: joint_mode_def rbind_Ok_iff)
  show thesis by (rule that [OF u loop s'])
qed

text \<open>Whatever the mode, the fits made after the anchor step are fits of candidates of
  the pool, and the pool does not grow.\<close>

lemma run_mode_calls:
  assumes "run_mode fuel E A s = Ok s'"
  shows "set (input_candidates s') \<subseteq> set (input_candidates s) \<and>
     (\<exists>calls. fit_calls s' = fit_calls s @ calls \<and>
        (\<forall>fi\<in>set calls. set (Tractograms fi) \<subseteq> set (input_candidates s)))"
proof -
  consider (weights) "use_weights A \<or> use_num_streamlines A" "weights_mode E A s = Ok s'"
    | (joint) "joint_mode E A s = Ok s'"
    | (greedy) "greedy_loop fuel E A s = Ok s'"
    using assms by (auto simp: run_mode_def split: if_splits)
  then show ?thesis
  proof cases
    case weights
    from score_loop_frame [OF weights(2) [unfolded weights_mode_def]] show ?thesis by simp
  next
    case joint
    from joint(1) show ?thesis
    proof (cases rule: joint_mode_cases)
      case (1 fitter h s1)
      from score_loop_frame [OF 1(2)] 1(3)
      have "fit_calls s' = fit_calls s @ [joint_fit_input A s]"
        "input_candidates s' = input_candidates s"
        by simp_all
      moreover
      have "\<forall>fi\<in>set [joint_fit_input A s]. set (Tractograms fi) \<subseteq> set (input_candidates s)"
        by (simp add: joint_fit_input_def)
      ultimately show ?thesis
        by (intro conjI exI [of _ "[joint_fit_input A s]"]) simp_all
    qed
  next
    case greedy
    from greedy_loop_calls [OF greedy] show ?thesis .
  qed
qed

subsection \<open>The anchor step\<close>

text \<open>
  C5. When an anchor file is given and loads as a bundle with fibers, the first fit of the
  run, whatever the mode, is the fit of that single bundle with regularization
  \<^verbatim>\<open>NONE\<close> against the peak image as loaded (flipped when a flip is asked for).
  Unless reading the results of that fit fails, the mode then starts from a state whose
  peak image is the underexplained image of the anchor fit: this is the image given to
  the joint fit and to the fits of the first greedy round.
\<close>

theorem anchor_fit_precedes_mode:
  assumes "anchors_file A = Some file" and "Load E file = Some anchor"
    and "GetNumFibers (h0 anchor) \<noteq> 0"
    and "fi = \<lparr>Tractograms = [anchor],
               PeakImage = (if flipx A \<or> flipy A \<or> flipz A
                            then FlipPeaks E (flipx A) (flipy A) (flipz A) (inputImage A)
                            else inputImage A),
               MaskImage = mask_image A, Lambda = lambda A, FilterOutliers = filter_outliers A,
               Verbose = True, FitIndividualFibers = None, Regularization = Some NONE\<rparr>"
    and "Update E fi h0 = (fitter, h)"
  shows "(main fuel E A h0 = Exception \<and>
            (GetRmsDiffPerBundle fitter = [] \<or> GetTractograms fitter = [])) \<or>
         (\<exists>s1. anchor_fit E A (initial_run E A h0) = Ok s1 \<and>
            fit_calls s1 = [fi] \<and> heap s1 = h \<and>
            peak_image s1 = GetUnderexplainedImage fitter \<and> rmse s1 = GetRMSE fitter \<and>
            main fuel E A h0 = run_mode fuel E A s1 \<and>
            PeakImage (joint_fit_input A s1) = GetUnderexplainedImage fitter \<and>
            (\<forall>cand. PeakImage (greedy_fit_input A s1 cand) = GetUnderexplainedImage fitter) \<and>
            (\<forall>s'. main fuel E A h0 = Ok s' \<longrightarrow> (\<exists>calls. fit_calls s' = fi # calls)))"
proof -
  let ?s0 = "initial_run E A h0"
  have fi: "anchor_fit_input A ?s0 anchor = fi"
    by (simp add: anchor_fit_input_def initial_run_def assms(4))
  have h0: "heap ?s0 = h0" by (simp add: initial_run_def)
  show ?thesis
  proof (cases "GetRmsDiffPerBundle fitter = [] \<or> GetTractograms fitter = []")
    case True
    then have "anchor_fit E A ?s0 = Exception"
      using assms(1-3,5) fi h0 by (auto simp: anchor_fit_def vec_at_def)
    with True show ?thesis by (simp add: main_def)
  next
    case False
    let ?s1 = "?s0\<lparr>heap := h, rmse := GetRMSE fitter,
                  name := GetFilenameWithoutExtension E file,
                  peak_image := GetUnderexplainedImage fitter,
                  logfile := logfile ?s0 @
                    [LogAnchor (GetRmsDiffPerBundle fitter ! 0) (name ?s0) (GetRMSE fitter)],
                  saved := saved ?s0 @
                    [SavedFib (int_cast (RoundToDouble E (100000 * (GetRmsDiffPerBundle fitter ! 0))))
                       (GetFilenameWithoutExtension E file) (h (GetTractograms fitter ! 0)),
                     SavedResidual (GetFilenameWithoutExtension E file)
                       (GetUnderexplainedImage fitter)],
                  fit_calls := fit_calls ?s0 @ [fi]\<rparr>"
    from False have a: "anchor_fit E A ?s0 = Ok ?s1"
      using assms(1-3,5) fi h0 by (simp add: anchor_fit_def vec_at_def)
    then have m: "main fuel E A h0 = run_mode fuel E A ?s1" by (simp add: main_def)
    have c: "fit_calls ?s1 = [fi]" by (simp add: initial_run_def)
    have "\<exists>calls. fit_calls s' = fi # calls" if "main fuel E A h0 = Ok s'" for s'
    proof -
      from that m have "run_mode fuel E A ?s1 = Ok s'" by simp
      from run_mode_calls [OF this] c show ?thesis by auto
    qed
    with a m c show ?thesis
      by (intro disjI2 exI [of _ ?s1]) (simp add: joint_fit_input_def greedy_fit_input_def)
  qed
qed

theorem anchor_fit_precedes_mode_witness:
  "anchors_file demo_args = Some ''anchor.fib'' \<and> Load demo_ext ''anchor.fib'' = Some 9 \<and>
   GetNumFibers (demo_heap 9) \<noteq> 0 \<and>
   Update demo_ext
     \<lparr>Tractograms = [9], PeakImage = [8, 4], MaskImage = None, Lambda = 1 / 10,
      FilterOutliers = False, Verbose = True, FitIndividualFibers = None,
      Regularization = Some NONE\<rparr> demo_heap =
     (\<lparr>GetRMSE = 10, GetRmsDiffPerBundle = [9 / 4], GetNumCoveredDirections = 2,
       GetTractograms = [9], GetUnderexplainedImage = [4, 2]\<rparr>, demo_heap) \<and>
   fits_of (main 2 demo_ext demo_args demo_heap) =
     Ok [\<lparr>Tractograms = [9], PeakImage = [8, 4], MaskImage = None, Lambda = 1 / 10,
          FilterOutliers = False, Verbose = True, FitIndividualFibers = None,
          Regularization = Some NONE\<rparr>,
         \<lparr>Tractograms = [1], PeakImage = [4, 2], MaskImage = None, Lambda = 1 / 10,
          FilterOutliers = False, Verbose = False, FitIndividualFibers = None,
          Regularization = None\<rparr>,
         \<lparr>Tractograms = [2], PeakImage = [4, 2], MaskImage = None, Lambda = 1 / 10,
          FilterOutliers = False, Verbose = False, FitIndividualFibers = None,
          Regularization = None\<rparr>,
         \<lparr>Tractograms = [2], PeakImage = [2, 1], MaskImage = None, Lambda = 1 / 10,
          FilterOutliers = False, Verbose = False, FitIndividualFibers = None,
          Regularization = None\<rparr>] \<and>
   fits_of (main 0 demo_ext (demo_args\<lparr>use_num_streamlines := True\<rparr>) demo_heap) =
     Ok [\<lparr>Tractograms = [9], PeakImage = [8, 4], MaskImage = None, Lambda = 1 / 10,
          FilterOutliers = False, Verbose = True, FitIndividualFibers = None,
          Regularization = Some NONE\<rparr>]"
proof -
  let ?fi = "\<lparr>Tractograms = [9], PeakImage = [8, 4], MaskImage = None, Lambda = 1 / 10,
      FilterOutliers = False, Verbose = True, FitIndividualFibers = None,
      Regularization = Some NONE\<rparr>"
  let ?fo = "\<lparr>GetRMSE = 10, GetRmsDiffPerBundle = [9 / 4], GetNumCoveredDirections = 2,
       GetTractograms = [9], GetUnderexplainedImage = [4, 2]\<rparr>"
  have a: "anchors_file demo_args = Some ''anchor.fib''" "Load demo_ext ''anchor.fib'' = Some 9"
    "GetNumFibers (demo_heap 9) \<noteq> 0"
    by (simp_all add: demo_defs GetNumFibers_def)
  have fi: "?fi = \<lparr>Tractograms = [9],
               PeakImage = (if flipx demo_args \<or> flipy demo_args \<or> flipz demo_args
                            then FlipPeaks demo_ext (flipx demo_args) (flipy demo_args)
                                   (flipz demo_args) (inputImage demo_args)
                            else inputImage demo_args),
               MaskImage = mask_image demo_args, Lambda = lambda demo_args,
               FilterOutliers = filter_outliers demo_args,
               Verbose = True, FitIndividualFibers = None, Regularization = Some NONE\<rparr>"
    by (simp add: demo_defs)
  have u: "Update demo_ext ?fi demo_heap = (?fo, demo_heap)"
    by (simp add: demo_defs)
  have g: "fits_of (main 2 demo_ext demo_args demo_heap) =
     Ok [?fi,
         \<lparr>Tractograms = [1], PeakImage = [4, 2], MaskImage = None, Lambda = 1 / 10,
          FilterOutliers = False, Verbose = False, FitIndividualFibers = None,
          Regularization = None\<rparr>,
         \<lparr>Tractograms = [2], PeakImage = [4, 2], MaskImage = None, Lambda = 1 / 10,
          FilterOutliers = False, Verbose = False, FitIndividualFibers = None,
          Regularization = None\<rparr>,
         \<lparr>Tractograms = [2], PeakImage = [2, 1], MaskImage = None, Lambda = 1 / 10,
          FilterOutliers = False, Verbose = False, FitIndividualFibers = None,
          Regularization = None\<rparr>]"
    by (simp add: run_defs demo_defs)
  have w: "fits_of (main 0 demo_ext (demo_args\<lparr>use_num_streamlines := True\<rparr>) demo_heap) =
     Ok [?fi]"
    by (simp add: run_defs demo_defs)
  from anchor_fit_precedes_mode [OF a fi u, of 2] a u g w show ?thesis
    by simp
qed

subsection \<open>The pool that is loaded and the anchor guard\<close>



subsection \<open>The best overlap, with and without reference peak images\<close>

lemma best_masks_track:
  "best_masks k os c = track k (map (\<lambda>overlap. (overlap, v2 c)) os) c"
proof (induction os arbitrary: k c)
  case Nil
  then show ?case by simp
next
  case (Cons x os)
  let ?c = "if x > v1 c then Overlap x (v2 c) (int k) else c"
  have "v2 ?c = v2 c" by simp
  with Cons.IH [of "Suc k" ?c] show ?case by simp
qed

lemma track_is_best:
  assumes "length xs = n" and "\<forall>j<n. xs ! j = (g j, other j)"
  shows "is_best g other n (track 0 xs no_overlap)"
  using track_nth [OF assms(1), of "\<lambda>j. (g j, other j)"] assms(2)
  by (simp add: is_best_def cong: if_cong)

text \<open>Both records of a scored bundle are what the overlap values prescribe, with or
  without reference peak images.\<close>

lemma best_overlaps_is_best:
  "is_best (volumetric_at E A fib) (directional_at E A fib) (length (reference_masks A))
     (fst (best_overlaps E A fib)) \<and>
   is_best (directional_at E A fib) (volumetric_at E A fib) (length (reference_masks A))
     (snd (best_overlaps E A fib))"
proof (cases "length (reference_masks A) = length (reference_peaks A)")
  case True
  let ?xs = "map2 (\<lambda>ref_mask ref_peak. GetDirectionalOverlap E fib (fst ref_mask) ref_peak)
               (reference_masks A) (reference_peaks A)"
  have best: "best_overlaps E A fib =
      (track 0 (map prod.swap ?xs) no_overlap, track 0 ?xs no_overlap)"
    using True by (simp add: best_overlaps_def best_aligned_track)
  have "is_best (volumetric_at E A fib) (directional_at E A fib) (length (reference_masks A))
          (track 0 (map prod.swap ?xs) no_overlap)"
    using True
    by (intro track_is_best) (simp_all add: volumetric_at_def directional_at_def prod.swap_def)
  moreover
  have "is_best (directional_at E A fib) (volumetric_at E A fib) (length (reference_masks A))
          (track 0 ?xs no_overlap)"
    using True by (intro track_is_best) (simp_all add: volumetric_at_def directional_at_def)
  ultimately show ?thesis by (simp add: best)
next
  case False
  let ?os = "map (\<lambda>ref_mask. GetOverlap E fib (fst ref_mask)) (reference_masks A)"
  have best: "best_overlaps E A fib =
      (track 0 (map (\<lambda>overlap. (overlap, 0)) ?os) no_overlap, no_overlap)"
    using False by (simp add: best_overlaps_def best_masks_track) (simp add: no_overlap_def)
  have "is_best (volumetric_at E A fib) (directional_at E A fib) (length (reference_masks A))
          (track 0 (map (\<lambda>overlap. (overlap, 0)) ?os) no_overlap)"
    using False by (intro track_is_best) (simp_all add: volumetric_at_def directional_at_def)
  moreover
  have "is_best (directional_at E A fib) (volumetric_at E A fib) (length (reference_masks A))
          no_overlap"
    using False by (simp add: is_best_def directional_at_def)
  ultimately show ?thesis by (simp add: best)
qed

lemma vec_at_Ok_iff: "vec_at xs k = Ok x \<longleftrightarrow> k < length xs \<and> x = xs ! k"
  by (auto simp: vec_at_def)

lemma overlap_log_report:
  assumes "overlap_log E A (c, d) = Ok ol"
  shows "ol = overlap_report E A c d"
  using assms
  by (auto simp: overlap_log_def overlap_report_def mask_name_def Let_def rbind_Ok_iff
                 vec_at_Ok_iff split: if_splits)



subsection \<open>The files and lines of the weight mode and the joint mode\<close>

text \<open>The files and the lines of a scoring loop, in the order of its list.\<close>

lemma score_loop_exact:
  assumes "score_loop body s c cands = Ok s'"
    and "\<And>k out. k < length cands \<Longrightarrow> body (c + k) (cands ! k) = Ok out \<Longrightarrow> out = (sv k, ls k)"
  shows "saved s' = saved s @ map sv [0..<length cands] \<and>
         logfile s' = logfile s @ concat (map ls [0..<length cands])"
proof -
  from score_loop_outputs [OF assms(1)] obtain outs where outs: "length outs = length cands"
    "\<forall>k<length cands. body (c + k) (cands ! k) = Ok (outs ! k)"
    "saved s' = saved s @ map fst outs"
    "logfile s' = logfile s @ concat (map snd outs)"
    by blast
  have "outs = map (\<lambda>k. (sv k, ls k)) [0..<length cands]"
  proof (rule nth_equalityI)
    show "length outs = length (map (\<lambda>k. (sv k, ls k)) [0..<length cands])"
      using outs(1) by simp
    fix k assume "k < length outs"
    with outs(1,2) have "k < length cands" "body (c + k) (cands ! k) = Ok (outs ! k)" by auto
    then have "outs ! k = (sv k, ls k)" by (rule assms(2))
    with \<open>k < length cands\<close> show "outs ! k = map (\<lambda>k. (sv k, ls k)) [0..<length cands] ! k"
      by simp
  qed
  then have "map fst outs = map sv [0..<length cands]" "map snd outs = map ls [0..<length cands]"
    by (simp_all add: comp_def)
  with outs(3,4) show ?thesis by simp
qed

lemma score_bundle_exact:
  assumes "score_bundle E A files c fib score prefix = Ok out" 
  shows "out = (SavedFib prefix (GetFilenameWithoutExtension E (files ! c)) fib,
                score_block E A (GetFilenameWithoutExtension E (files ! c)) score fib)"
proof -
  from assms obtain ol where
    "overlap_log E A (best_overlaps E A fib) = Ok ol"
    "out = (SavedFib prefix (GetFilenameWithoutExtension E (files ! c)) fib,
            LogRmsDiff score (GetFilenameWithoutExtension E (files ! c))
              (GetNumCoveredVoxels E (mask_image A) fib) (GetNumFibers fib) (weight_sum E fib) # ol)"
    by (auto simp: score_bundle_def rbind_Ok_iff vec_at_Ok_iff)
  with overlap_log_report [of E A "fst (best_overlaps E A fib)" "snd (best_overlaps E A fib)" ol]
  show ?thesis by (simp add: score_block_def)
qed

text \<open>The weight mode: no fit, and for every bundle of the pool, in the order of the
  pool, one saved file and one block of lines, computed from that bundle.\<close>

lemma weights_mode_exact:
  assumes "weights_mode E A s = Ok s'"
  shows "fit_calls s' = fit_calls s \<and> heap s' = heap s \<and>
         input_candidates s' = input_candidates s \<and>
         saved s' = saved s @ map (weight_saved E A s) [0..<length (input_candidates s)] \<and>
         logfile s' = logfile s @
           concat (map (weight_block E A s) [0..<length (input_candidates s)])"
proof -
  let ?body = "weights_body E A (heap s) (candidate_tract_files s)"
  from assms have loop: "score_loop ?body s 0 (input_candidates s) = Ok s'"
    by (simp add: weights_mode_def)
  have "out = (weight_saved E A s k, weight_block E A s k)"
    if "?body (0 + k) (input_candidates s ! k) = Ok out" for k out
    using score_bundle_exact [OF that [unfolded weights_body_def]]
    by (simp add: weight_saved_def weight_block_def candidate_name_def)
  from score_loop_exact [OF loop this] score_loop_frame [OF loop] show ?thesis by simp
qed



subsection \<open>A pass of the greedy loop, in full\<close>

lemma round_fits_length [simp]: "length (round_fits E A cands s) = length cands"
  by (induction cands arbitrary: s) (auto split: prod.splits)








subsection \<open>The number in a file name\<close>

lemma truncated_iff:
  "truncated x n \<longleftrightarrow> n = (if x < 0 then \<lceil>x\<rceil> else \<lfloor>x\<rfloor>)"
proof (cases "x < 0")
  case True
  have "truncated x n \<longleftrightarrow> real_of_int n - 1 < x \<and> x \<le> real_of_int n"
  proof
    assume t: "truncated x n"
    with True have "real_of_int n \<le> 0"
      by (auto simp: truncated_def zero_le_mult_iff)
    with t True show "real_of_int n - 1 < x \<and> x \<le> real_of_int n"
      by (simp add: truncated_def)
  next
    assume r: "real_of_int n - 1 < x \<and> x \<le> real_of_int n"
    with True have "real_of_int n < real_of_int 1" by simp
    then have "n < 1" by (simp only: of_int_less_iff)
    then have n: "real_of_int n \<le> 0" by simp
    with True have "0 \<le> real_of_int n * x" by (simp add: zero_le_mult_iff)
    with r n True show "truncated x n" by (simp add: truncated_def)
  qed
  also have "\<dots> \<longleftrightarrow> \<lceil>x\<rceil> = n" by (simp add: ceiling_eq_iff)
  finally show ?thesis using True by auto
next
  case False
  have "truncated x n \<longleftrightarrow> real_of_int n \<le> x \<and> x < real_of_int n + 1"
  proof
    assume t: "truncated x n"
    have "0 \<le> real_of_int n"
    proof (rule ccontr)
      assume "\<not> 0 \<le> real_of_int n"
      with t False have "x = 0" "real_of_int n < 0"
        by (auto simp: truncated_def zero_le_mult_iff)
      with t show False by (simp add: truncated_def)
    qed
    with t False show "real_of_int n \<le> x \<and> x < real_of_int n + 1"
      by (simp add: truncated_def)
  next
    assume r: "real_of_int n \<le> x \<and> x < real_of_int n + 1"
    with False have "real_of_int (- 1) < real_of_int n" by simp
    then have "- 1 < n" by (simp only: of_int_less_iff)
    then have n: "0 \<le> real_of_int n" by simp
    with False have "0 \<le> real_of_int n * x" by (simp add: zero_le_mult_iff)
    with r n False show "truncated x n" by (simp add: truncated_def)
  qed
  also have "\<dots> \<longleftrightarrow> \<lfloor>x\<rfloor> = n" by (simp add: floor_eq_iff)
  finally show ?thesis using False by auto
qed

text \<open>The number in a file name: the value cut off towards zero, when that fits into 32
  bits.\<close>

lemma int_cast_Some_iff:
  "int_cast x = Some n \<longleftrightarrow> truncated x n \<and> - 2147483648 \<le> n \<and> n \<le> 2147483647"
  unfolding truncated_iff by (auto simp: int_cast_def)

lemma int_cast_None_iff:
  "int_cast x = None \<longleftrightarrow> x \<le> - 2147483649 \<or> 2147483648 \<le> x"
proof (cases "x < 0")
  case True
  have "\<lceil>x\<rceil> < - 2147483648 \<longleftrightarrow> x \<le> - 2147483649"
    using ceiling_less_iff [of x "- 2147483648"] by simp
  with True show ?thesis by (auto simp: int_cast_def not_le)
next
  case False
  have "2147483647 < \<lfloor>x\<rfloor> \<longleftrightarrow> 2147483648 \<le> x"
    using less_floor_iff [of 2147483647 x] by simp
  with False show ?thesis by (auto simp: int_cast_def not_le)
qed

subsection \<open>The log and the fits of the greedy loop\<close>

lemma outputs_of_Ok_iff:
  "outputs_of r = Ok (sv, ls, calls) \<longleftrightarrow>
     (\<exists>s. r = Ok s \<and> saved s = sv \<and> logfile s = ls \<and> fit_calls s = calls)"
  by (cases r) (auto simp: outputs_of_def)









subsection \<open>Runs with a fitting filter that preserves bundle identity\<close>


lemma Load_spec_fitter [simp]: "Load (spec_fitter E) = Load E"
  by (simp add: spec_fitter_def)

lemma load_candidates_spec_fitter [simp]:
  "load_candidates (spec_fitter E) h fs = load_candidates E h fs"
  by (induction fs) (simp_all split: option.splits)




subsection \<open>The weight mode\<close>

text \<open>
  C8. The weight mode makes no fit. For every bundle of the pool, in the order of the
  pool, it saves the bundle under the number \<open>(int)(mod * score)\<close> and writes a line with
  the score, followed by the overlap lines of that bundle. The score is the weight of the
  first fiber when \<^verbatim>\<open>use_weights\<close> is set, and then \<open>mod\<close> is 100000; it is the number of
  fibers, with \<open>mod\<close> 1, when only \<^verbatim>\<open>use_num_streamlines\<close> is set. The number in the
  file name is the rounded product cut off towards zero, and it is defined only when
  that fits into 32 bits. The overlap records of the bundle are computed as in the joint
  mode: the best volumetric overlap is the first largest positive one with its companion
  value, also when there are no reference peak images, where the companion is 0 and no
  directional record exists.
\<close>

theorem weight_mode_scores:
  "(outputs_of (weights_mode E A s) = Ok (sv, ls, calls) \<longrightarrow>
      calls = fit_calls s \<and>
      sv = saved s @ map (weight_saved E A s) [0..<length (input_candidates s)] \<and>
      ls = logfile s @ concat (map (weight_block E A s) [0..<length (input_candidates s)])) \<and>
   (use_weights A \<longrightarrow> candidate_score A fib = GetFiberWeight fib 0 \<and> score_mod A = 100000) \<and>
   (\<not> use_weights A \<and> use_num_streamlines A \<longrightarrow>
      candidate_score A fib = real_of_int (GetNumFibers fib) \<and> score_mod A = 1) \<and>
   (int_cast x = Some n \<longleftrightarrow> truncated x n \<and> - 2147483648 \<le> n \<and> n \<le> 2147483647) \<and>
   (int_cast x = None \<longleftrightarrow> x \<le> - 2147483649 \<or> 2147483648 \<le> x) \<and>
   is_best (volumetric_at E A fib) (directional_at E A fib) (length (reference_masks A))
     (fst (best_overlaps E A fib)) \<and>
   is_best (directional_at E A fib) (volumetric_at E A fib) (length (reference_masks A))
     (snd (best_overlaps E A fib))"
proof -
  have "calls = fit_calls s \<and>
      sv = saved s @ map (weight_saved E A s) [0..<length (input_candidates s)] \<and>
      ls = logfile s @ concat (map (weight_block E A s) [0..<length (input_candidates s)])"
    if "outputs_of (weights_mode E A s) = Ok (sv, ls, calls)"
  proof -
    from that obtain s' where "weights_mode E A s = Ok s'"
      "saved s' = sv" "logfile s' = ls" "fit_calls s' = calls"
      by (auto simp: outputs_of_Ok_iff)
    with weights_mode_exact [of E A s s'] show ?thesis by simp
  qed
  moreover have "use_weights A \<longrightarrow>
      candidate_score A fib = GetFiberWeight fib 0 \<and> score_mod A = 100000"
    by (simp add: candidate_score_def score_mod_def)
  moreover have "\<not> use_weights A \<and> use_num_streamlines A \<longrightarrow>
      candidate_score A fib = real_of_int (GetNumFibers fib) \<and> score_mod A = 1"
    by (simp add: candidate_score_def score_mod_def)
  ultimately show ?thesis
    using int_cast_Some_iff [of x n] int_cast_None_iff [of x] best_overlaps_is_best [of E A fib]
    by blast
qed

theorem weight_mode_scores_witness:
  "outputs_of (weights_mode demo_ext (demo_args\<lparr>use_weights := True\<rparr>)
     (initial_run demo_ext (demo_args\<lparr>use_weights := True\<rparr>) demo_heap)) =
     Ok ([SavedFib (Some 250000) ''a'' (demo_heap 1), SavedFib (Some 100000) ''b'' (demo_heap 2)],
         [LogVersion,
          LogRmsDiff (5 / 2) ''a'' 3 1 (5 / 2), LogBestOverlap (4 / 5) (1 / 2) ''m1'',
          LogBestDirOverlap (9 / 10) (3 / 10) ''m2'',
          LogRmsDiff 1 ''b'' 6 2 1, LogBestOverlap (4 / 5) (1 / 2) ''m1'',
          LogBestDirOverlap (9 / 10) (3 / 10) ''m2''],
         []) \<and>
   outputs_of (weights_mode demo_ext (demo_args\<lparr>use_num_streamlines := True, reference_peaks := []\<rparr>)
     (initial_run demo_ext (demo_args\<lparr>use_num_streamlines := True, reference_peaks := []\<rparr>)
        demo_heap)) =
     Ok ([SavedFib (Some 1) ''a'' (demo_heap 1), SavedFib (Some 2) ''b'' (demo_heap 2)],
         [LogVersion,
          LogRmsDiff 1 ''a'' 3 1 (5 / 2), LogBestOverlap (4 / 5) 0 ''m1'',
          LogRmsDiff 2 ''b'' 6 2 1, LogBestOverlap (4 / 5) 0 ''m1''],
         []) \<and>
   candidate_score (demo_args\<lparr>use_weights := True\<rparr>) (demo_heap 1) = 5 / 2 \<and>
   candidate_score (demo_args\<lparr>use_num_streamlines := True, reference_peaks := []\<rparr>) (demo_heap 2) = 2 \<and>
   int_cast (100000 * (5 / 2)) = Some 250000 \<and>
   int_cast (100000 * 30000) = None \<and>
   best_overlaps demo_ext (demo_args\<lparr>use_num_streamlines := True, reference_peaks := []\<rparr>)
     (demo_heap 1) = (Overlap (4 / 5) 0 1, Overlap 0 0 (- 1))"
proof -
  let ?A = "demo_args\<lparr>use_weights := True\<rparr>"
  let ?s = "initial_run demo_ext ?A demo_heap"
  let ?sv = "[SavedFib (Some 250000) ''a'' (demo_heap 1), SavedFib (Some 100000) ''b'' (demo_heap 2)]"
  let ?ls = "[LogVersion,
          LogRmsDiff (5 / 2) ''a'' 3 1 (5 / 2), LogBestOverlap (4 / 5) (1 / 2) ''m1'',
          LogBestDirOverlap (9 / 10) (3 / 10) ''m2'',
          LogRmsDiff 1 ''b'' 6 2 1, LogBestOverlap (4 / 5) (1 / 2) ''m1'',
          LogBestDirOverlap (9 / 10) (3 / 10) ''m2'']"
  let ?B = "demo_args\<lparr>use_num_streamlines := True, reference_peaks := []\<rparr>"
  let ?t = "initial_run demo_ext ?B demo_heap"
  let ?tv = "[SavedFib (Some 1) ''a'' (demo_heap 1), SavedFib (Some 2) ''b'' (demo_heap 2)]"
  let ?tl = "[LogVersion,
          LogRmsDiff 1 ''a'' 3 1 (5 / 2), LogBestOverlap (4 / 5) 0 ''m1'',
          LogRmsDiff 2 ''b'' 6 2 1, LogBestOverlap (4 / 5) 0 ''m1'']"
  have a: "outputs_of (weights_mode demo_ext ?A ?s) = Ok (?sv, ?ls, [])"
    by (simp add: outputs_of_def run_defs demo_defs)
  have b: "outputs_of (weights_mode demo_ext ?B ?t) = Ok (?tv, ?tl, [])"
    by (simp add: outputs_of_def run_defs demo_defs)
  have f: "use_weights ?A" "\<not> use_weights ?B \<and> use_num_streamlines ?B"
    by (simp_all add: demo_defs)
  have w: "GetFiberWeight (demo_heap 1) 0 = 5 / 2" "real_of_int (GetNumFibers (demo_heap 2)) = 2"
    by (simp_all add: run_defs demo_defs)
  have o: "best_overlaps demo_ext ?B (demo_heap 1) = (Overlap (4 / 5) 0 1, Overlap 0 0 (- 1))"
    by (simp add: run_defs demo_defs)
  have t: "truncated (100000 * (5 / 2)) 250000" by (simp add: truncated_def)
  from weight_mode_scores [where E = demo_ext and A = ?A and s = ?s and sv = ?sv and ls = ?ls
      and calls = "[]" and fib = "demo_heap 1" and x = "100000 * (5 / 2)" and n = 250000] a f w t
  have 1: "candidate_score ?A (demo_heap 1) = 5 / 2" "int_cast (100000 * (5 / 2)) = Some 250000"
    by simp_all
  from weight_mode_scores [where E = demo_ext and A = ?B and s = ?t and sv = ?tv and ls = ?tl
      and calls = "[]" and fib = "demo_heap 2" and x = "100000 * 30000" and n = 0] b f w
  have 2: "candidate_score ?B (demo_heap 2) = 2" "int_cast (100000 * 30000) = None"
    by simp_all
  from a b o 1 2 show ?thesis by simp
qed

subsection \<open>What the log records for a bundle\<close>




subsection \<open>Candidates and anchors that are skipped\<close>



text \<open>The file names are read from the unfiltered file list at the position of the
  bundle in the pool: in the runs above the second bundle of the pool, loaded from
  \<^verbatim>\<open>b.fib\<close>, is saved and logged under the name of the skipped file \<^verbatim>\<open>e.fib\<close>, and in
  the last one the selected bundle, loaded from \<^verbatim>\<open>a.fib\<close>, is written under that name.
  The bundle of \<^verbatim>\<open>e.fib\<close> itself is never fitted, scored, saved or selected.\<close>

subsection \<open>The greedy mode: the number of passes\<close>



end
